theory Spec2Isabelle
  imports Main "HOL-Library.Sublist" "HOL-Library.Multiset"
begin

section \<open>The application store (src/store/appStore.ts)\<close>

text \<open>
  The store is a zustand store: one state object, and actions that call
  \<open>set(partial)\<close>, which replaces exactly the fields named in \<open>partial\<close> and keeps
  every other field. The state is a record; an action is a function from the state to
  the new state. The entity collections are opaque to the actions modelled here, so
  their element types are declared without structure.
\<close>

typedecl ProjectInfo
typedecl SettingsEntity
typedecl MemoryEntity
typedecl AgentEntity
typedecl SkillEntity
typedecl CommandEntity
typedecl HookEntity
typedecl PluginEntity
typedecl McpServerEntity
typedecl DuplicateGroupT
typedecl SymlinkInfo
typedecl DisplayableEntity
typedecl Toast
typedecl CommandPaletteSection

datatype ToolType = claude | opencode

datatype ViewType =
  dashboard | project | health | settings_view | memory_view | agents_view
  | skills_view | commands_view | hooks_view | plugins_view | mcp_view

datatype FilterScope = scope_all | scope_global | scope_project

datatype ToolFilter = tool_all | tool_only ToolType

datatype Theme = dark | light

record AppState =
  isLoading :: bool
  lastDiscovery :: "int option"
  error :: "string option"
  globalConfigPath :: string
  homeDirectory :: string
  projects :: "ProjectInfo list"
  settings :: "SettingsEntity list"
  memory :: "MemoryEntity list"
  agents :: "AgentEntity list"
  skills :: "SkillEntity list"
  commands :: "CommandEntity list"
  hooks :: "HookEntity list"
  plugins :: "PluginEntity list"
  mcpServers :: "McpServerEntity list"
  duplicates :: "DuplicateGroupT list"
  symlinks :: "SymlinkInfo list"
  activeView :: ViewType
  selectedEntity :: "DisplayableEntity option"
  searchQuery :: string
  filterScope :: FilterScope
  filterProject :: "string option"
  filterTool :: ToolFilter
  isPanelOpen :: bool
  theme :: Theme
  isGlobalSearchOpen :: bool
  globalSearchQuery :: string
  recentEntityIds :: "string list"
  toasts :: "Toast list"
  hasInitiallyAnimated :: bool
  previousItemIds :: "string set"
  cachedSections :: "CommandPaletteSection list option"

text \<open>
  \<open>setActiveView\<close> (appStore.ts, lines 601-612): one \<open>set\<close> call naming seven
  fields. \<open>null\<close> is \<open>None\<close>.
\<close>

definition setActiveView :: "ViewType \<Rightarrow> AppState \<Rightarrow> AppState" where
  "setActiveView view s =
     s\<lparr> activeView := view,
        selectedEntity := None,
        isPanelOpen := False,
        searchQuery := [],
        filterScope := scope_all,
        filterProject := None,
        cachedSections := None \<rparr>"

text \<open>
  \<open>addToRecentEntities\<close> (appStore.ts, lines 683-690) reads the list with
  \<open>get()\<close>, removes the id, puts it in front, keeps the first five
  (\<open>slice(0, 5)\<close>), writes the result to \<open>localStorage\<close> under the key
  \<open>recentEntityIds\<close> and to the store. The browser's storage is a map from keys to
  stored values; the JSON text of the list is represented by the list itself.
\<close>

datatype Stored = StoredText string | StoredIds "string list"

type_synonym LocalStorage = "string \<rightharpoonup> Stored"

definition addToRecentEntities ::
  "string \<Rightarrow> AppState \<times> LocalStorage \<Rightarrow> AppState \<times> LocalStorage" where
  "addToRecentEntities ident w =
     (let (s, storage) = w;
          filtered = filter (\<lambda>existingId. existingId \<noteq> ident) (recentEntityIds s);
          updated = take 5 (ident # filtered)
      in (s\<lparr> recentEntityIds := updated \<rparr>,
          storage(''recentEntityIds'' \<mapsto> StoredIds updated)))"

text \<open>A sequence of calls, one after the other.\<close>

definition addAllToRecentEntities ::
  "string list \<Rightarrow> AppState \<times> LocalStorage \<Rightarrow> AppState \<times> LocalStorage" where
  "addAllToRecentEntities idents w = foldl (\<lambda>w' i. addToRecentEntities i w') w idents"

text \<open>
  The initial state (appStore.ts, lines 428-469), for a browser storage that holds none
  of the three persisted keys: then \<open>filterTool\<close> is \<open>'all'\<close>, \<open>theme\<close> is
  \<open>'dark'\<close> and \<open>recentEntityIds\<close> is the empty list.
\<close>

definition initialState :: AppState where
  "initialState =
     \<lparr> isLoading = False, lastDiscovery = None, error = None,
       globalConfigPath = [], homeDirectory = [],
       projects = [], settings = [], memory = [], agents = [], skills = [],
       commands = [], hooks = [], plugins = [], mcpServers = [],
       duplicates = [], symlinks = [],
       activeView = dashboard, selectedEntity = None, searchQuery = [],
       filterScope = scope_all, filterProject = None, filterTool = tool_all,
       isPanelOpen = False, theme = dark,
       isGlobalSearchOpen = False, globalSearchQuery = [], recentEntityIds = [],
       toasts = [], hasInitiallyAnimated = False, previousItemIds = {},
       cachedSections = None \<rparr>"

section \<open>The bulk fix dialog (src/components/FixConfigModal.tsx)\<close>

text \<open>
  The dialog keeps one \<open>ProjectFixState\<close> per project in React state. A React state
  variable is a constant of the render that read it: \<open>setProjectStates(prev => ...)\<close>
  applies the updater to the live state of the component and leaves the constant
  \<open>projectStates\<close> of the running handler as it was. The model therefore gives
  \<open>handleFixSelected\<close> two lists: \<open>captured\<close>, the constant the handler closes over,
  and \<open>live\<close>, the component state the updaters act on.
\<close>

datatype ConfigStateType = correct | missing_symlink | needs_migration | conflict | empty_state

datatype FixStatus = pending | fixing | success | error_status

record ProjectFixState =
  path :: string
  name :: string
  configState :: ConfigStateType
  selected :: bool
  status :: FixStatus
  message :: "string option"

text \<open>
  What a rejected \<open>fixProjectConfig\<close> promise throws: an \<open>Error\<close> object with its
  message, or any other value. Line 93:
  \<open>error instanceof Error ? error.message : 'Unknown error'\<close>.
\<close>

datatype Thrown = ErrorInstance string | OtherThrown

definition errorMessageOf :: "Thrown \<Rightarrow> string" where
  "errorMessageOf err = (case err of ErrorInstance m \<Rightarrow> m | OtherThrown \<Rightarrow> ''Unknown error'')"

text \<open>The three state updaters of the loop body (lines 81-83, 87-91, 94-98).\<close>

definition markFixing :: "ProjectFixState \<Rightarrow> ProjectFixState list \<Rightarrow> ProjectFixState list" where
  "markFixing pr prev = map (\<lambda>p. if path p = path pr then p\<lparr>status := fixing\<rparr> else p) prev"

definition recorded :: "ProjectFixState \<Rightarrow> Thrown + string \<Rightarrow> ProjectFixState" where
  "recorded p res =
     (case res of
        Inr msg \<Rightarrow> p\<lparr>status := success, message := Some msg\<rparr>
      | Inl err \<Rightarrow> p\<lparr>status := error_status, message := Some (errorMessageOf err)\<rparr>)"

definition markResult ::
  "ProjectFixState \<Rightarrow> Thrown + string \<Rightarrow> ProjectFixState list \<Rightarrow> ProjectFixState list" where
  "markResult pr res prev = map (\<lambda>p. if path p = path pr then recorded p res else p) prev"

text \<open>
  \<open>fixProjectConfig\<close> is a call into the backend: it takes the project path and the
  state of the world \<open>'w\<close> (the file system), and returns the promise's outcome
  (\<open>Inr\<close> the message it resolves to, \<open>Inl\<close> what it rejects with) and the new world.
  The loop (lines 79-100) awaits each call in turn; the \<open>try/catch\<close> turns a rejection
  into the error branch. The third component records every call made with its outcome.
\<close>

type_synonym 'w fixer = "string \<Rightarrow> 'w \<Rightarrow> (Thrown + string) \<times> 'w"

fun fixLoop ::
  "'w fixer \<Rightarrow> ProjectFixState list
     \<Rightarrow> ProjectFixState list \<times> 'w \<times> (string \<times> (Thrown + string)) list
     \<Rightarrow> ProjectFixState list \<times> 'w \<times> (string \<times> (Thrown + string)) list" where
  "fixLoop fixProjectConfig [] st = st"
| "fixLoop fixProjectConfig (pr # rest) (live, w, trace) =
     (let live1 = markFixing pr live;
          (res, w') = fixProjectConfig (path pr) w;
          live2 = markResult pr res live1
      in fixLoop fixProjectConfig rest (live2, w', trace @ [(path pr, res)]))"

datatype ToastType = toast_success | toast_error | toast_info | toast_warning

text \<open>
  The two message templates of the summary toast, with their numbers:
  \<open>Successfully fixed ${successCount} project(s)\<close> and
  \<open>Fixed ${successCount}, failed ${errorCount}\<close>.
\<close>

datatype SummaryMessage = SuccessfullyFixed nat | FixedFailed nat nat

record ToastRequest =
  toast_type :: ToastType
  title :: string
  summary :: SummaryMessage

record FixRun =
  projectStates :: "ProjectFixState list"
  isFixing :: bool
  isDone :: bool
  calls :: "(string \<times> (Thrown + string)) list"
  toast :: "ToastRequest option"

text \<open>
  \<open>handleFixSelected\<close> (lines 72-125). \<open>refreshDiscovery\<close> is the store action; it
  catches its own errors, so it only changes the world. The counts of lines 109-110 are
  taken from \<open>projectStates\<close>, the constant of the handler's render, which is
  \<open>captured\<close> here. With nothing selected the handler returns at line 74.
\<close>

definition handleFixSelected ::
  "'w fixer \<Rightarrow> ('w \<Rightarrow> 'w) \<Rightarrow> ProjectFixState list \<Rightarrow> ProjectFixState list
     \<Rightarrow> bool \<Rightarrow> bool \<Rightarrow> 'w \<Rightarrow> FixRun \<times> 'w" where
  "handleFixSelected fixProjectConfig refreshDiscovery captured live fixing0 done0 w =
     (let toFix = filter selected captured in
      if length toFix = 0
      then (\<lparr>projectStates = live, isFixing = fixing0, isDone = done0, calls = [],
             toast = None\<rparr>, w)
      else
        (let (live', w', trace) = fixLoop fixProjectConfig toFix (live, w, []);
             w'' = refreshDiscovery w';
             successCount = length (filter (\<lambda>p. status p = success) captured);
             errorCount = length (filter (\<lambda>p. status p = error_status) captured);
             t = (if errorCount = 0
                  then \<lparr>toast_type = toast_success, title = ''All configs fixed'',
                        summary = SuccessfullyFixed successCount\<rparr>
                  else \<lparr>toast_type = toast_warning, title = ''Some fixes failed'',
                        summary = FixedFailed successCount errorCount\<rparr>)
         in (\<lparr>projectStates = live', isFixing = False, isDone = True, calls = trace,
              toast = Some t\<rparr>, w'')))"

text \<open>
  The dialog's initial state (lines 45-53): every project selected and pending. The
  project list is reduced to the three fields the dialog reads.
\<close>

definition initialProjectStates ::
  "(string \<times> string \<times> ConfigStateType option) list \<Rightarrow> ProjectFixState list" where
  "initialProjectStates ps =
     map (\<lambda>(p, n, c). \<lparr>path = p, name = n,
                        configState = (case c of Some st \<Rightarrow> st | None \<Rightarrow> empty_state),
                        selected = True, status = pending, message = None\<rparr>) ps"

text \<open>
  Three notions used to state what the loop does. \<open>outcomes\<close> is the sequence of
  calls and results obtained by calling the backend on a list of paths, one after the
  other, and \<open>worldAfter\<close> is the world these calls leave. \<open>applyTrace\<close> replays a
  sequence of results on one entry of the state.
\<close>

fun outcomes :: "'w fixer \<Rightarrow> 'w \<Rightarrow> string list \<Rightarrow> (string \<times> (Thrown + string)) list" where
  "outcomes f w [] = []"
| "outcomes f w (q # qs) = (q, fst (f q w)) # outcomes f (snd (f q w)) qs"

fun worldAfter :: "'w fixer \<Rightarrow> 'w \<Rightarrow> string list \<Rightarrow> 'w" where
  "worldAfter f w [] = w"
| "worldAfter f w (q # qs) = worldAfter f (snd (f q w)) qs"

fun applyTrace :: "(string \<times> (Thrown + string)) list \<Rightarrow> ProjectFixState \<Rightarrow> ProjectFixState" where
  "applyTrace [] p = p"
| "applyTrace ((q, res) # tr) p = applyTrace tr (if path p = q then recorded p res else p)"

section \<open>Frontmatter utilities (lib/api.ts)\<close>

subsection \<open>Strings, arrays and objects of the source language\<close>

text \<open>
  A string is a list of code units; \<open>char\<close> covers the code units below 256. The
  string methods the parser calls are written out here with the results the language
  defines for them. None of them throws.
\<close>

text \<open>
  \<open>trim()\<close> removes white space and line terminators from both ends: among the code
  units below 256 these are TAB, LF, VT, FF, CR, SPACE and NBSP.
\<close>

definition isWhiteSpace :: "char \<Rightarrow> bool" where
  "isWhiteSpace c =
     (c = CHR 0x09 \<or> c = CHR 0x0A \<or> c = CHR 0x0B \<or> c = CHR 0x0C \<or> c = CHR 0x0D
      \<or> c = CHR 0x20 \<or> c = CHR 0xA0)"

definition trim :: "string \<Rightarrow> string" where
  "trim s = rev (dropWhile isWhiteSpace (rev (dropWhile isWhiteSpace s)))"

text \<open>
  \<open>s.indexOf(pat, from)\<close>: the least index \<open>k \<ge> from\<close> at which \<open>pat\<close> occurs in
  \<open>s\<close>; \<open>None\<close> stands for \<open>-1\<close>. \<open>firstOccurrence pat s k\<close> searches \<open>s\<close>, whose
  first code unit has index \<open>k\<close>.
\<close>

fun firstOccurrence :: "string \<Rightarrow> string \<Rightarrow> nat \<Rightarrow> nat option" where
  "firstOccurrence pat [] k = (if pat = [] then Some k else None)"
| "firstOccurrence pat (c # cs) k =
     (if prefix pat (c # cs) then Some k else firstOccurrence pat cs (Suc k))"

definition indexOf :: "string \<Rightarrow> string \<Rightarrow> nat \<Rightarrow> nat option" where
  "indexOf s pat from = firstOccurrence pat (drop from s) (min from (length s))"

text \<open>\<open>s.slice(a, b)\<close> for \<open>0 \<le> a\<close> and \<open>0 \<le> b\<close>, and \<open>s.slice(1, -1)\<close>.\<close>

definition slice :: "string \<Rightarrow> nat \<Rightarrow> nat \<Rightarrow> string" where
  "slice s a b = take (b - a) (drop a s)"

definition sliceInner :: "string \<Rightarrow> string" where
  "sliceInner s = butlast (tl s)"

definition endsWith :: "string \<Rightarrow> char \<Rightarrow> bool" where
  "endsWith s c = (s \<noteq> [] \<and> last s = c)"

text \<open>\<open>s.split(sep)\<close> for a separator of one code unit; the result is never empty.\<close>

fun split :: "char \<Rightarrow> string \<Rightarrow> string list" where
  "split sep [] = [[]]"
| "split sep (c # cs) =
     (if c = sep then [] # split sep cs
      else (case split sep cs of [] \<Rightarrow> [[c]] | piece # pieces \<Rightarrow> (c # piece) # pieces))"

text \<open>\<open>parts.join(sep)\<close>.\<close>

fun join :: "string \<Rightarrow> string list \<Rightarrow> string" where
  "join sep [] = []"
| "join sep [x] = x"
| "join sep (x # y # ys) = x @ sep @ join sep (y # ys)"

text \<open>
  \<open>lines.indexOf(line)\<close> on an array: the first index holding an equal string, or
  \<open>-1\<close>. \<open>elementAfter\<close> is \<open>lines[lines.indexOf(line) + 1]\<close>, which is
  \<open>undefined\<close> (\<open>None\<close>) past the end and \<open>lines[0]\<close> when the index is \<open>-1\<close>.
\<close>

fun arrayIndexOf :: "'a \<Rightarrow> 'a list \<Rightarrow> nat option" where
  "arrayIndexOf x [] = None"
| "arrayIndexOf x (y # ys) = (if y = x then Some 0 else map_option Suc (arrayIndexOf x ys))"

definition elementAfter :: "'a list \<Rightarrow> 'a \<Rightarrow> 'a option" where
  "elementAfter xs x =
     (let i = (case arrayIndexOf x xs of None \<Rightarrow> 0 | Some k \<Rightarrow> k + 1)
      in if i < length xs then Some (xs ! i) else None)"

text \<open>
  The values of a frontmatter record. The parser produces strings, arrays of strings,
  booleans and numbers; the generator also meets \<open>null\<close>/\<open>undefined\<close> and nested
  objects. Numbers are kept abstract (\<open>'n\<close>): \<open>Number(value)\<close> is the parameter
  \<open>toNumber\<close>, with \<open>None\<close> for \<open>NaN\<close>. Nested objects are kept abstract (\<open>'o\<close>).
\<close>

datatype ('n, 'o) jsvalue =
  JNull | JString string | JArray "string list" | JBoolean bool | JNumber 'n | JObject 'o

text \<open>
  An object is the list of its own properties in the order in which they were added.
  \<open>obj[key] = value\<close> replaces the value of an own property, or adds the property at
  the end. For an object without integer-like keys this is the order in which
  \<open>Object.entries\<close> lists the properties; \<open>Object.entries\<close> puts integer-like
  keys first, in ascending order, so for other objects the list holds the same
  properties in another order. On an object literal the assignment to \<open>__proto__\<close>
  runs the inherited setter and adds no own property.
\<close>

type_synonym ('n, 'o) jsobject = "(string \<times> ('n, 'o) jsvalue) list"

fun replaceProperty ::
  "string \<Rightarrow> ('n, 'o) jsvalue \<Rightarrow> ('n, 'o) jsobject \<Rightarrow> ('n, 'o) jsobject" where
  "replaceProperty k v [] = [(k, v)]"
| "replaceProperty k v ((k', v') # ps) =
     (if k' = k then (k, v) # ps else (k', v') # replaceProperty k v ps)"

definition assignProperty ::
  "string \<Rightarrow> ('n, 'o) jsvalue \<Rightarrow> ('n, 'o) jsobject \<Rightarrow> ('n, 'o) jsobject" where
  "assignProperty k v obj = (if k = ''__proto__'' then obj else replaceProperty k v obj)"

subsection \<open>parseFrontmatter\<close>

text \<open>
  The typing of a non-empty value (lines 352-371), in the order of the source's
  \<open>if\<close>/\<open>else if\<close> chain.
\<close>

definition typedValue :: "(string \<Rightarrow> 'n option) \<Rightarrow> string \<Rightarrow> ('n, 'o) jsvalue" where
  "typedValue toNumber v =
     (if CHR '','' \<in> set v \<and> \<not> prefix ''\"'' v then JArray (map trim (split CHR '','' v))
      else if prefix ''\"'' v \<and> endsWith v CHR ''\"'' then JString (sliceInner v)
      else if prefix [CHR 0x27] v \<and> endsWith v (CHR 0x27) then JString (sliceInner v)
      else if v = ''true'' then JBoolean True
      else if v = ''false'' then JBoolean False
      else (case toNumber v of Some n \<Rightarrow> JNumber n | None \<Rightarrow> JString v))"

text \<open>The variables of the loop (lines 316-320).\<close>

record ('n, 'o) parserState =
  frontmatter :: "('n, 'o) jsobject"
  currentKey :: string
  inArray :: bool
  arrayValues :: "string list"

text \<open>
  One iteration of the loop over the lines (lines 322-375); \<open>lines\<close> is the whole
  array, which the test for the start of a block list reads.
\<close>

definition parseLine ::
  "(string \<Rightarrow> 'n option) \<Rightarrow> string list \<Rightarrow> string \<Rightarrow> ('n, 'o) parserState
     \<Rightarrow> ('n, 'o) parserState" where
  "parseLine toNumber lines line st =
     (let trimmedLine = trim line in
      if inArray st \<and> prefix ''- '' trimmedLine
      then st\<lparr>arrayValues := arrayValues st @ [trim (drop 2 trimmedLine)]\<rparr>
      else
        (let st1 = (if inArray st
                    then st\<lparr>frontmatter :=
                               assignProperty (currentKey st) (JArray (arrayValues st))
                                 (frontmatter st),
                            arrayValues := [], inArray := False\<rparr>
                    else st)
         in case indexOf trimmedLine '':'' 0 of
              None \<Rightarrow> st1
            | Some colonIndex \<Rightarrow>
                if colonIndex > 0
                then
                  (let key = trim (slice trimmedLine 0 colonIndex);
                       v = trim (drop (colonIndex + 1) trimmedLine)
                   in if v = [] \<and> (case elementAfter lines line of
                                      None \<Rightarrow> False
                                    | Some next \<Rightarrow> prefix ''- '' (trim next))
                      then st1\<lparr>currentKey := key, inArray := True\<rparr>
                      else if v = [] then st1
                      else st1\<lparr>frontmatter :=
                                 assignProperty key (typedValue toNumber v) (frontmatter st1)\<rparr>)
                else st1))"

fun parseLines ::
  "(string \<Rightarrow> 'n option) \<Rightarrow> string list \<Rightarrow> string list \<Rightarrow> ('n, 'o) parserState
     \<Rightarrow> ('n, 'o) parserState" where
  "parseLines toNumber lines [] st = st"
| "parseLines toNumber lines (line # rest) st =
     parseLines toNumber lines rest (parseLine toNumber lines line st)"

text \<open>
  The body of the \<open>try\<close> block (lines 316-380) on the trimmed text between the two
  delimiters: split into lines, run the loop from the initial variables, and store an
  array that is still open at the end.
\<close>

definition parseBlock :: "(string \<Rightarrow> 'n option) \<Rightarrow> string \<Rightarrow> ('n, 'o) jsobject" where
  "parseBlock toNumber yamlStr =
     (let lines = split (CHR 0x0A) yamlStr;
          st = parseLines toNumber lines lines
                 \<lparr>frontmatter = [], currentKey = [], inArray = False, arrayValues = []\<rparr>
      in if inArray st \<and> length (arrayValues st) > 0
         then assignProperty (currentKey st) (JArray (arrayValues st)) (frontmatter st)
         else frontmatter st)"

text \<open>
  \<open>parseFrontmatter\<close> (lines 299-386). The result is the pair of \<open>frontmatter\<close>
  (\<open>None\<close> for \<open>null\<close>) and \<open>body\<close>. Every operation inside the \<open>try\<close> block is
  one of the total operations above, so the \<open>catch\<close> branch is never taken and the
  function is total, as the model is.
\<close>

definition parseFrontmatter ::
  "(string \<Rightarrow> 'n option) \<Rightarrow> string \<Rightarrow> ('n, 'o) jsobject option \<times> string" where
  "parseFrontmatter toNumber content =
     (if \<not> prefix ''---'' content then (None, content)
      else
        (case indexOf content ''---'' 3 of
           None \<Rightarrow> (None, content)
         | Some endIndex \<Rightarrow>
             (let yamlStr = trim (slice content 3 endIndex);
                  body = trim (drop (endIndex + 3) content)
              in (Some (parseBlock toNumber yamlStr), body))))"

text \<open>
  An instance of \<open>toNumber\<close> for examples, not a model of \<open>Number\<close>: a text of
  decimal digits gives the natural number it denotes (\<open>Number\<close> gives the nearest
  double, which is this number up to \<open>2^53\<close>), and every other text gives \<open>None\<close>,
  also the signed, fractional, exponent and hexadecimal texts that \<open>Number\<close>
  accepts. It is used in closed examples only, on values that are not numeric texts.
\<close>

definition digitValue :: "char \<Rightarrow> nat" where
  "digitValue c = of_char c - 48"

definition isDigit :: "char \<Rightarrow> bool" where
  "isDigit c = (48 \<le> (of_char c :: nat) \<and> (of_char c :: nat) \<le> 57)"

definition decimalNumber :: "string \<Rightarrow> nat option" where
  "decimalNumber v =
     (if v \<noteq> [] \<and> list_all isDigit v
      then Some (foldl (\<lambda>acc c. 10 * acc + digitValue c) 0 v)
      else None)"

subsection \<open>generateFrontmatter and createMarkdownContent\<close>

text \<open>
  \<open>generateFrontmatter\<close> (lines 391-424) pushes lines and joins them with LF. The text
  of a number in a template literal and \<open>JSON.stringify\<close> of a nested object are the
  parameters \<open>showNumber\<close> and \<open>stringify\<close>. \<open>value.replace(/"/g, '\\"')\<close> puts a
  backslash before every double quote.
\<close>

definition escapeQuotes :: "string \<Rightarrow> string" where
  "escapeQuotes s = concat (map (\<lambda>c. if c = CHR ''\"'' then [CHR 0x5C, CHR ''\"''] else [c]) s)"

definition entryLines ::
  "('n \<Rightarrow> string) \<Rightarrow> ('o \<Rightarrow> string) \<Rightarrow> string \<times> ('n, 'o) jsvalue \<Rightarrow> string list" where
  "entryLines showNumber stringify entry =
     (case entry of (key, val) \<Rightarrow>
        (case val of
           JNull \<Rightarrow> []
         | JString s \<Rightarrow>
             (if CHR '':'' \<in> set s \<or> CHR ''#'' \<in> set s \<or> CHR 0x0A \<in> set s
              then [key @ '': \"'' @ escapeQuotes s @ ''\"'']
              else [key @ '': '' @ s])
         | JArray items \<Rightarrow>
             (if length items = 0 then []
              else if (\<forall>i \<in> set items. length i < 20) \<and> length items \<le> 5
              then [key @ '': '' @ join '', '' items]
              else (key @ '':'') # map (\<lambda>item. ''  - '' @ item) items)
         | JBoolean b \<Rightarrow> [key @ '': '' @ (if b then ''true'' else ''false'')]
         | JNumber n \<Rightarrow> [key @ '': '' @ showNumber n]
         | JObject obj \<Rightarrow> [key @ '': '' @ stringify obj]))"

definition generateFrontmatter ::
  "('n \<Rightarrow> string) \<Rightarrow> ('o \<Rightarrow> string) \<Rightarrow> ('n, 'o) jsobject \<Rightarrow> string" where
  "generateFrontmatter showNumber stringify data =
     join [CHR 0x0A]
       ([''---''] @ concat (map (entryLines showNumber stringify) data) @ [''---''])"

definition createMarkdownContent ::
  "('n \<Rightarrow> string) \<Rightarrow> ('o \<Rightarrow> string) \<Rightarrow> ('n, 'o) jsobject \<Rightarrow> string \<Rightarrow> string" where
  "createMarkdownContent showNumber stringify fm body =
     generateFrontmatter showNumber stringify fm @ [CHR 0x0A, CHR 0x0A] @ body"

text \<open>
  The decimal digits of a natural number, as an instance of \<open>showNumber\<close> for
  examples, not a model of a number in a template literal: the two agree below
  \<open>10^21\<close>, from where on the language writes an exponent. With it numbers are
  naturals, and a nested object is represented by its JSON text (\<open>stringify\<close> is
  \<open>id\<close>). It is used in closed examples only, on records of strings.
\<close>

fun decimalText :: "nat \<Rightarrow> string" where
  "decimalText n =
     (if n < 10 then [char_of (48 + n)]
      else decimalText (n div 10) @ [char_of (48 + n mod 10)])"

subsection \<open>The records and bodies of the round trip\<close>

text \<open>
  The conditions the specification puts on a value and on a body: a value is a
  non-empty string without comma, colon, quote, hash or newline, is not \<open>true\<close> or
  \<open>false\<close> and is not numeric; a body is trimmed and does not contain the delimiter.
\<close>

definition specValue :: "(string \<Rightarrow> 'n option) \<Rightarrow> string \<Rightarrow> bool" where
  "specValue toNumber v =
     (v \<noteq> [] \<and> CHR '','' \<notin> set v \<and> CHR '':'' \<notin> set v \<and> CHR ''\"'' \<notin> set v
      \<and> CHR 0x27 \<notin> set v \<and> CHR ''#'' \<notin> set v \<and> CHR 0x0A \<notin> set v
      \<and> v \<noteq> ''true'' \<and> v \<noteq> ''false'' \<and> toNumber v = None)"

definition specBody :: "string \<Rightarrow> bool" where
  "specBody body = (trim body = body \<and> \<not> sublist ''---'' body)"

text \<open>
  The conditions under which the generated text is read back as it was written. A value
  must also be trimmed and free of the delimiter. A key must be non-empty, trimmed, free
  of colon, newline and delimiter, and must not be \<open>__proto__\<close>. \<open>plainLine\<close> is the
  line the generator writes for such an entry.
\<close>

definition plainValue :: "(string \<Rightarrow> 'n option) \<Rightarrow> string \<Rightarrow> bool" where
  "plainValue toNumber v = (specValue toNumber v \<and> trim v = v \<and> \<not> sublist ''---'' v)"

definition plainKey :: "string \<Rightarrow> bool" where
  "plainKey k =
     (k \<noteq> [] \<and> trim k = k \<and> CHR '':'' \<notin> set k \<and> CHR 0x0A \<notin> set k
      \<and> \<not> sublist ''---'' k \<and> k \<noteq> ''__proto__'')"

definition plainLine :: "string \<times> string \<Rightarrow> string" where
  "plainLine e = fst e @ '': '' @ snd e"

text \<open>A record of strings as an object.\<close>

definition stringRecord :: "(string \<times> string) list \<Rightarrow> ('n, 'o) jsobject" where
  "stringRecord es = map (\<lambda>e. (fst e, JString (snd e))) es"

section \<open>The consistency engine and the duplicate resolver (backend commands)\<close>

text \<open>
  The commands \<open>get_project_config_state\<close>, \<open>fix_project_config\<close> and
  \<open>find_duplicates\<close> are implemented in the backend; the frontend holds only
  their callers (lib/api.ts) and the types of their results (lib/types.ts). The
  definitions of this section follow the specification, sections 3, 4.3 and 4.5.
\<close>

subsection \<open>The two memory files of a project\<close>

text \<open>
  Modelled from the spec: the file system the backend reads and writes is missing. A
  path holds a regular file with its content, or a symbolic link with its resolved
  target, or nothing.
\<close>

datatype Node = RegularFile string | SymbolicLink string

type_synonym FileSystem = "string \<rightharpoonup> Node"

text \<open>\<open>FileStatus\<close> (lib/types.ts, line 419); \<open>plain_file\<close> is \<open>'file'\<close>.\<close>

datatype FileStatus = plain_file | symlink | missing

definition statusOf :: "FileSystem \<Rightarrow> string \<Rightarrow> FileStatus" where
  "statusOf fs p =
     (case fs p of None \<Rightarrow> missing | Some (RegularFile c) \<Rightarrow> plain_file
      | Some (SymbolicLink t) \<Rightarrow> symlink)"

definition symlinkTarget :: "FileSystem \<Rightarrow> string \<Rightarrow> string option" where
  "symlinkTarget fs p = (case fs p of Some (SymbolicLink t) \<Rightarrow> Some t | _ \<Rightarrow> None)"

text \<open>
  The legacy memory file is \<open>CLAUDE.md\<close> and the universal one \<open>AGENTS.md\<close>, both at
  the root of the project (lib/api.ts, lines 95-108; lib/types.ts, lines 422-428).
\<close>

definition legacyPath :: "string \<Rightarrow> string" where
  "legacyPath projectPath = projectPath @ ''/CLAUDE.md''"

definition universalPath :: "string \<Rightarrow> string" where
  "universalPath projectPath = projectPath @ ''/AGENTS.md''"

text \<open>The result type \<open>ConfigState\<close> (lib/types.ts, lines 431-437).\<close>

record ConfigState =
  agents_md_status :: FileStatus
  claude_md_status :: FileStatus
  claude_md_symlink_target :: "string option"
  config_state :: ConfigStateType
  can_auto_fix :: bool

text \<open>
  Modelled from the spec: the classification of the backend is missing. This is the
  decision table of section 4.5, row by row, on the legacy status, the universal status
  and whether the legacy link points at the universal file. The table has six rows; on
  the other combinations the specification gives no classification (\<open>None\<close>).
\<close>

fun classify :: "FileStatus \<Rightarrow> FileStatus \<Rightarrow> bool \<Rightarrow> ConfigStateType option" where
  "classify symlink plain_file True = Some correct"
| "classify missing plain_file _ = Some missing_symlink"
| "classify plain_file missing _ = Some needs_migration"
| "classify plain_file plain_file _ = Some conflict"
| "classify missing missing _ = Some empty_state"
| "classify symlink plain_file False = Some conflict"
| "classify _ _ _ = None"

text \<open>
  Modelled from the spec: \<open>get_project_config_state\<close> of the backend is missing. It
  reads the two statuses and the link target, classifies them, and sets \<open>can_auto_fix\<close>
  for every classification except \<open>conflict\<close> (section 4.5).
\<close>

definition get_project_config_state :: "FileSystem \<Rightarrow> string \<Rightarrow> ConfigState option" where
  "get_project_config_state fs projectPath =
     (let legacy = statusOf fs (legacyPath projectPath);
          universal = statusOf fs (universalPath projectPath);
          target = symlinkTarget fs (legacyPath projectPath);
          linked = (target = Some (universalPath projectPath))
      in map_option
           (\<lambda>c. \<lparr>agents_md_status = universal, claude_md_status = legacy,
                  claude_md_symlink_target = target, config_state = c,
                  can_auto_fix = (c \<noteq> conflict)\<rparr>)
           (classify legacy universal linked))"

text \<open>
  Modelled from the spec: \<open>fix_project_config\<close> of the backend is missing. Section
  4.5 gives one action per classification, a failure for \<open>conflict\<close>, and no change
  for \<open>correct\<close>. The result is a message or an error, with the file system after the
  call. The wording of messages and errors is not specified, so they are named by what
  happened. Where the specification gives no classification the model fails and changes
  nothing.
\<close>

datatype FixMessage = AlreadyCorrect | SymlinkCreated | Migrated | BothCreated

datatype FixError = ConflictNeedsDecision | NoClassification

definition fix_project_config ::
  "FileSystem \<Rightarrow> string \<Rightarrow> (FixError + FixMessage) \<times> FileSystem" where
  "fix_project_config fs projectPath =
     (let legacy = legacyPath projectPath; universal = universalPath projectPath in
      case get_project_config_state fs projectPath of
        None \<Rightarrow> (Inl NoClassification, fs)
      | Some st \<Rightarrow>
          (case config_state st of
             correct \<Rightarrow> (Inr AlreadyCorrect, fs)
           | missing_symlink \<Rightarrow> (Inr SymlinkCreated, fs(legacy \<mapsto> SymbolicLink universal))
           | needs_migration \<Rightarrow>
               (case fs legacy of
                  Some (RegularFile content) \<Rightarrow>
                    (Inr Migrated,
                     fs(universal \<mapsto> RegularFile content, legacy \<mapsto> SymbolicLink universal))
                | _ \<Rightarrow> (Inl NoClassification, fs))
           | empty_state \<Rightarrow>
               (Inr BothCreated,
                fs(universal \<mapsto> RegularFile [], legacy \<mapsto> SymbolicLink universal))
           | conflict \<Rightarrow> (Inl ConflictNeedsDecision, fs)))"

subsection \<open>Duplicate groups\<close>

text \<open>
  \<open>EntityType\<close> (lib/types.ts, lines 53-61), each constructor with the suffix
  \<open>_kind\<close>.
\<close>

datatype EntityType =
  settings_kind | memory_kind | agent_kind | skill_kind | command_kind | hook_kind
  | plugin_kind | mcp_kind

text \<open>
  Modelled from the spec: the entities the resolver works on are produced by the
  backend's extractor, which is missing. Section 4.3 orders three scopes, most specific
  first: project-local override, project, global. An entity carries the fields of the
  common base (section 3) that a duplicate group reports, with its kind and name.
\<close>

datatype Scope = local_override | project_level | global_level

fun scopeRank :: "Scope \<Rightarrow> nat" where
  "scopeRank local_override = 0"
| "scopeRank project_level = 1"
| "scopeRank global_level = 2"

record Entity =
  ent_id :: string
  ent_name :: string
  ent_path :: string
  ent_scope :: Scope
  ent_project_path :: "string option"
  ent_type :: EntityType

text \<open>
  \<open>DuplicateEntity\<close> and \<open>DuplicateGroup\<close> (lib/types.ts, lines 375-387). The
  fields \<open>id\<close>, \<open>path\<close>, \<open>scope\<close>, \<open>project_path\<close> and \<open>name\<close> carry a prefix
  here.
\<close>

record DuplicateEntity =
  dup_id :: string
  dup_path :: string
  dup_scope :: Scope
  dup_project_path :: "string option"
  precedence :: nat

record DuplicateGroup =
  group_name :: string
  entity_type :: EntityType
  entities :: "DuplicateEntity list"

text \<open>
  Modelled from the spec: \<open>find_duplicates\<close> of the backend is missing. Section 4.3:
  hooks and MCP servers are left out; the other entities are grouped by kind and name; a
  group is built for a key that at least two entities share; its members are ordered by
  scope, most specific first, and within one scope by discovery order (the sort is
  stable); the rank of a member is its position, from 0.
\<close>

definition grouped :: "Entity \<Rightarrow> bool" where
  "grouped e = (ent_type e \<noteq> hook_kind \<and> ent_type e \<noteq> mcp_kind)"

definition groupKey :: "Entity \<Rightarrow> EntityType \<times> string" where
  "groupKey e = (ent_type e, ent_name e)"

definition asDuplicate :: "nat \<times> Entity \<Rightarrow> DuplicateEntity" where
  "asDuplicate ie =
     \<lparr>dup_id = ent_id (snd ie), dup_path = ent_path (snd ie), dup_scope = ent_scope (snd ie),
      dup_project_path = ent_project_path (snd ie), precedence = fst ie\<rparr>"

definition ranked :: "Entity list \<Rightarrow> DuplicateEntity list" where
  "ranked es = map asDuplicate (enumerate 0 es)"

definition sharing :: "EntityType \<times> string \<Rightarrow> Entity list \<Rightarrow> Entity list" where
  "sharing k es = filter (\<lambda>e. groupKey e = k) (filter grouped es)"

definition groupOf :: "Entity list \<Rightarrow> EntityType \<times> string \<Rightarrow> DuplicateGroup" where
  "groupOf es k =
     \<lparr>group_name = snd k, entity_type = fst k,
      entities = ranked (sort_key (\<lambda>e. scopeRank (ent_scope e)) (sharing k es))\<rparr>"

definition find_duplicates :: "Entity list \<Rightarrow> DuplicateGroup list" where
  "find_duplicates es =
     map (groupOf es)
       (filter (\<lambda>k. 2 \<le> length (sharing k es))
          (remdups (map groupKey (filter grouped es))))"

text \<open>What a group reports about a member, and the same fields of an entity.\<close>

definition reported :: "DuplicateEntity \<Rightarrow> string \<times> string \<times> Scope \<times> string option" where
  "reported d = (dup_id d, dup_path d, dup_scope d, dup_project_path d)"

definition located :: "Entity \<Rightarrow> string \<times> string \<times> Scope \<times> string option" where
  "located e = (ent_id e, ent_path e, ent_scope e, ent_project_path e)"

section \<open>Properties of the store actions\<close>

lemma recent_after_add:
  "recentEntityIds (fst (addToRecentEntities i w)) =
     take 5 (i # filter (\<lambda>x. x \<noteq> i) (recentEntityIds (fst w)))"
  by (cases w) (simp add: addToRecentEntities_def Let_def)

lemma recent_step_inv:
  assumes "distinct (recentEntityIds (fst w))"
  shows "distinct (recentEntityIds (fst (addToRecentEntities i w)))
         \<and> length (recentEntityIds (fst (addToRecentEntities i w))) \<le> 5"
proof -
  have "distinct (i # filter (\<lambda>x. x \<noteq> i) (recentEntityIds (fst w)))"
    using assms by simp
  then have "distinct (take 5 (i # filter (\<lambda>x. x \<noteq> i) (recentEntityIds (fst w))))"
    by (rule distinct_take)
  then show ?thesis
    by (simp add: recent_after_add)
qed

lemma recent_seq_inv:
  assumes "distinct (recentEntityIds (fst w))" and "length (recentEntityIds (fst w)) \<le> 5"
  shows "distinct (recentEntityIds (fst (addAllToRecentEntities is w)))
         \<and> length (recentEntityIds (fst (addAllToRecentEntities is w))) \<le> 5"
  using assms
proof (induction "is" arbitrary: w)
  case Nil
  then show ?case by (simp add: addAllToRecentEntities_def)
next
  case (Cons i "is")
  have step: "distinct (recentEntityIds (fst (addToRecentEntities i w)))
              \<and> length (recentEntityIds (fst (addToRecentEntities i w))) \<le> 5"
    using Cons.prems(1) by (rule recent_step_inv)
  have "addAllToRecentEntities (i # is) w = addAllToRecentEntities is (addToRecentEntities i w)"
    by (simp add: addAllToRecentEntities_def)
  with Cons.IH [of "addToRecentEntities i w"] step show ?case by simp
qed

text \<open>
  C9. Start from a store whose recent list has no duplicates and at most five ids, make
  any sequence of calls \<open>ids\<close>, then one more call with id \<open>i\<close>. The list then has at
  most five ids, has no duplicates, and starts with \<open>i\<close>. If \<open>i\<close> was already in the
  list, the new list is \<open>i\<close> followed by the old list without \<open>i\<close>, and has the old
  length.
\<close>

theorem addToRecentEntities_bounded_distinct_front:
  assumes "distinct (recentEntityIds (fst w0))"
    and "length (recentEntityIds (fst w0)) \<le> 5"
    and "w = addAllToRecentEntities ids w0"
    and "r = recentEntityIds (fst w)"
    and "r' = recentEntityIds (fst (addToRecentEntities i w))"
  shows "length r' \<le> 5 \<and> distinct r' \<and> r' \<noteq> [] \<and> hd r' = i
         \<and> (i \<in> set r \<longrightarrow> r' = i # filter (\<lambda>x. x \<noteq> i) r \<and> length r' = length r)"
proof -
  have inv: "distinct r \<and> length r \<le> 5"
    using recent_seq_inv [OF assms(1) assms(2)] assms(3) assms(4) by simp
  have r': "r' = take 5 (i # filter (\<lambda>x. x \<noteq> i) r)"
    using assms(4) assms(5) by (simp add: recent_after_add)
  have a: "length r' \<le> 5" using r' by simp
  have b: "distinct r'"
    using recent_step_inv [of w i] inv assms(4) assms(5) by simp
  have c: "r' \<noteq> [] \<and> hd r' = i" using r' by simp
  have d: "r' = i # filter (\<lambda>x. x \<noteq> i) r \<and> length r' = length r" if mem: "i \<in> set r"
  proof -
    have "length (filter (\<lambda>x. x \<noteq> i) r) + length (filter (\<lambda>x. x = i) r) = length r"
      using sum_length_filter_compl [of "\<lambda>x. x \<noteq> i" r] by simp
    moreover have "length (filter (\<lambda>x. x = i) r) = 1"
      using inv mem by (simp add: distinct_length_filter)
    ultimately have len: "Suc (length (filter (\<lambda>x. x \<noteq> i) r)) = length r" by simp
    then have "length (i # filter (\<lambda>x. x \<noteq> i) r) \<le> 5" using inv by simp
    then have "r' = i # filter (\<lambda>x. x \<noteq> i) r" using r' by simp
    with len show ?thesis by simp
  qed
  from a b c d show ?thesis by blast
qed

theorem addToRecentEntities_bounded_distinct_front_witness:
  "distinct (recentEntityIds (fst (initialState\<lparr>recentEntityIds := [''a'', ''b'']\<rparr>, Map.empty)))
   \<and> ''a'' \<in> set (recentEntityIds (fst (addAllToRecentEntities [''c'']
                   (initialState\<lparr>recentEntityIds := [''a'', ''b'']\<rparr>, Map.empty))))
   \<and> recentEntityIds (fst (addToRecentEntities ''a'' (addAllToRecentEntities [''c'']
                   (initialState\<lparr>recentEntityIds := [''a'', ''b'']\<rparr>, Map.empty))))
       = [''a'', ''c'', ''b'']"
proof -
  let ?w0 = "(initialState\<lparr>recentEntityIds := [''a'', ''b'']\<rparr>, Map.empty :: LocalStorage)"
  have h1: "distinct (recentEntityIds (fst ?w0))" by simp
  have h2: "length (recentEntityIds (fst ?w0)) \<le> 5" by simp
  have r: "recentEntityIds (fst (addAllToRecentEntities [''c''] ?w0)) = [''c'', ''a'', ''b'']"
    by (simp add: addAllToRecentEntities_def recent_after_add)
  show ?thesis
    using h1 r addToRecentEntities_bounded_distinct_front
      [OF h1 h2 refl refl refl, where ids = "[''c'']" and i = "''a''"]
    by simp
qed

text \<open>
  C10. After \<open>setActiveView view\<close> the search query is empty, the scope filter is
  \<open>all\<close>, the project filter and the selected entity are null and the detail panel is
  closed; the tool filter, the theme and every discovered collection are the ones of the
  state before the call.
\<close>

theorem setActiveView_resets_filters_keeps_data:
  "searchQuery (setActiveView view s) = []
   \<and> filterScope (setActiveView view s) = scope_all
   \<and> filterProject (setActiveView view s) = None
   \<and> selectedEntity (setActiveView view s) = None
   \<and> isPanelOpen (setActiveView view s) = False
   \<and> activeView (setActiveView view s) = view
   \<and> filterTool (setActiveView view s) = filterTool s
   \<and> theme (setActiveView view s) = theme s
   \<and> projects (setActiveView view s) = projects s
   \<and> settings (setActiveView view s) = settings s
   \<and> memory (setActiveView view s) = memory s
   \<and> agents (setActiveView view s) = agents s
   \<and> skills (setActiveView view s) = skills s
   \<and> commands (setActiveView view s) = commands s
   \<and> hooks (setActiveView view s) = hooks s
   \<and> plugins (setActiveView view s) = plugins s
   \<and> mcpServers (setActiveView view s) = mcpServers s
   \<and> duplicates (setActiveView view s) = duplicates s
   \<and> symlinks (setActiveView view s) = symlinks s"
  by (simp add: setActiveView_def)

section \<open>Properties of the bulk fix dialog\<close>

lemma recorded_path [simp]: "path (recorded p res) = path p"
  by (simp add: recorded_def split: sum.splits)

lemma recorded_fixing [simp]: "recorded (p\<lparr>status := fixing\<rparr>) res = recorded p res"
  by (simp add: recorded_def split: sum.splits)

lemma mark_step:
  "markResult pr res (markFixing pr live) =
     map (\<lambda>p. if path p = path pr then recorded p res else p) live"
  by (simp add: markResult_def markFixing_def)

lemma fixLoop_char:
  "fixLoop f toFix (live, w, tr) = (live', w', tr') \<Longrightarrow>
     tr' = tr @ outcomes f w (map path toFix)
     \<and> live' = map (applyTrace (outcomes f w (map path toFix))) live
     \<and> w' = worldAfter f w (map path toFix)"
proof (induction toFix arbitrary: live w tr)
  case Nil
  then show ?case by simp
next
  case (Cons pr rest)
  obtain res w1 where f: "f (path pr) w = (res, w1)" by (cases "f (path pr) w")
  from Cons.prems f have
    "fixLoop f rest (markResult pr res (markFixing pr live), w1, tr @ [(path pr, res)])
       = (live', w', tr')"
    by simp
  from Cons.IH [OF this] show ?case
    using f by (simp add: mark_step o_def)
qed

lemma outcomes_fst: "map fst (outcomes f w qs) = qs"
  by (induction qs arbitrary: w) auto

lemma applyTrace_other: "path p \<notin> fst ` set tr \<Longrightarrow> applyTrace tr p = p"
  by (induction tr arbitrary: p) auto

lemma applyTrace_own:
  "distinct (map fst tr) \<Longrightarrow> (path p, res) \<in> set tr \<Longrightarrow> applyTrace tr p = recorded p res"
proof (induction tr arbitrary: p)
  case Nil
  then show ?case by simp
next
  case (Cons a tr)
  obtain q r where a: "a = (q, r)" by (cases a)
  show ?case
  proof (cases "path p = q")
    case True
    with Cons.prems a have "r = res" by (auto simp: image_iff)
    moreover have "path (recorded p r) \<notin> fst ` set tr" using True Cons.prems a by auto
    ultimately show ?thesis using a True applyTrace_other by simp
  next
    case False
    with Cons a show ?thesis by auto
  qed
qed

lemma handleFixSelected_run:
  assumes "handleFixSelected f refresh ps ps fx dn w = (run, w1)"
  shows "calls run = outcomes f w (map path (filter selected ps))
         \<and> projectStates run = map (applyTrace (calls run)) ps
         \<and> w1 = (if filter selected ps = [] then w
                  else refresh (worldAfter f w (map path (filter selected ps))))"
proof (cases "filter selected ps = []")
  case True
  have "map (applyTrace []) ps = ps" by (induction ps) auto
  with True assms show ?thesis by (auto simp: handleFixSelected_def)
next
  case False
  obtain live' w' tr' where l: "fixLoop f (filter selected ps) (ps, w, []) = (live', w', tr')"
    by (cases "fixLoop f (filter selected ps) (ps, w, [])") auto
  from fixLoop_char [OF l] have
    "tr' = outcomes f w (map path (filter selected ps))" and "live' = map (applyTrace tr') ps"
    and "w' = worldAfter f w (map path (filter selected ps))"
    by simp_all
  moreover from assms False l have "calls run = tr'" and "projectStates run = live'"
    and "w1 = refresh w'"
    by (auto simp: handleFixSelected_def Let_def)
  ultimately show ?thesis using False by simp
qed

text \<open>
  C6. For a dialog whose projects have pairwise different paths: the backend is called
  once for every selected project, in the order of the list, whatever the earlier calls
  returned (the calls made are the selected paths, and their results are the results of
  the backend called on these paths in turn, each call on the world the call before it
  left). Afterwards an unselected project's entry is as it was, and a selected project's
  entry is its old entry with the outcome of its own call: status \<open>success\<close> and the
  message the call resolved to; or status \<open>error\<close> and the message of the \<open>Error\<close>
  it rejected with; or status \<open>error\<close> and \<open>Unknown error\<close> when it rejected with
  anything else. The world at the end is the one the last call left, refreshed.
\<close>

theorem handleFixSelected_continues_on_error:
  assumes "distinct (map path ps)"
    and "handleFixSelected f refresh ps ps fx dn w = (run, w1)"
  shows "map fst (calls run) = map path (filter selected ps)
         \<and> calls run = outcomes f w (map path (filter selected ps))
         \<and> w1 = (if filter selected ps = [] then w
                  else refresh (worldAfter f w (map path (filter selected ps))))
         \<and> length (projectStates run) = length ps
         \<and> (\<forall>i < length ps.
               (\<not> selected (ps ! i) \<longrightarrow> projectStates run ! i = ps ! i)
               \<and> (selected (ps ! i) \<longrightarrow>
                    (\<exists>res. (path (ps ! i), res) \<in> set (calls run)
                       \<and> (\<forall>msg. res = Inr msg \<longrightarrow>
                              projectStates run ! i
                                = (ps ! i)\<lparr>status := success, message := Some msg\<rparr>)
                       \<and> (\<forall>m. res = Inl (ErrorInstance m) \<longrightarrow>
                              projectStates run ! i
                                = (ps ! i)\<lparr>status := error_status, message := Some m\<rparr>)
                       \<and> (res = Inl OtherThrown \<longrightarrow>
                              projectStates run ! i
                                = (ps ! i)\<lparr>status := error_status,
                                             message := Some ''Unknown error''\<rparr>))))"
proof -
  let ?sel = "filter selected ps"
  from handleFixSelected_run [OF assms(2)] have
    c: "calls run = outcomes f w (map path ?sel)" and
    st: "projectStates run = map (applyTrace (calls run)) ps" and
    wd: "w1 = (if ?sel = [] then w else refresh (worldAfter f w (map path ?sel)))"
    by simp_all
  have fsts: "map fst (calls run) = map path ?sel"
    using c by (simp add: outcomes_fst)
  have dsel: "distinct (map path ?sel)"
    using assms(1) by (simp add: distinct_map_filter)
  have dtr: "distinct (map fst (calls run))" using fsts dsel by simp
  have each: "(\<not> selected (ps ! i) \<longrightarrow> projectStates run ! i = ps ! i)
              \<and> (selected (ps ! i) \<longrightarrow>
                    (\<exists>res. (path (ps ! i), res) \<in> set (calls run)
                       \<and> (\<forall>msg. res = Inr msg \<longrightarrow>
                              projectStates run ! i
                                = (ps ! i)\<lparr>status := success, message := Some msg\<rparr>)
                       \<and> (\<forall>m. res = Inl (ErrorInstance m) \<longrightarrow>
                              projectStates run ! i
                                = (ps ! i)\<lparr>status := error_status, message := Some m\<rparr>)
                       \<and> (res = Inl OtherThrown \<longrightarrow>
                              projectStates run ! i
                                = (ps ! i)\<lparr>status := error_status,
                                             message := Some ''Unknown error''\<rparr>)))"
    if i: "i < length ps" for i
  proof -
    have at: "projectStates run ! i = applyTrace (calls run) (ps ! i)"
      using st i by simp
    have mem: "ps ! i \<in> set ps" using i by simp
    show ?thesis
    proof (cases "selected (ps ! i)")
      case True
      then have "path (ps ! i) \<in> set (map path ?sel)" using mem by auto
      then have "path (ps ! i) \<in> fst ` set (calls run)" using fsts by (metis set_map)
      then obtain res where r: "(path (ps ! i), res) \<in> set (calls run)" by force
      from applyTrace_own [OF dtr r] at have "projectStates run ! i = recorded (ps ! i) res"
        by simp
      then have
        "(\<forall>msg. res = Inr msg \<longrightarrow>
            projectStates run ! i = (ps ! i)\<lparr>status := success, message := Some msg\<rparr>)
         \<and> (\<forall>m. res = Inl (ErrorInstance m) \<longrightarrow>
            projectStates run ! i = (ps ! i)\<lparr>status := error_status, message := Some m\<rparr>)
         \<and> (res = Inl OtherThrown \<longrightarrow>
            projectStates run ! i
              = (ps ! i)\<lparr>status := error_status, message := Some ''Unknown error''\<rparr>)"
        by (simp add: recorded_def errorMessageOf_def)
      with True r show ?thesis by blast
    next
      case False
      have "path (ps ! i) \<notin> set (map path ?sel)"
      proof
        assume "path (ps ! i) \<in> set (map path ?sel)"
        then obtain q where q: "q \<in> set ps" "selected q" "path q = path (ps ! i)" by auto
        from assms(1) q(1) mem q(3) have "q = ps ! i"
          by (meson distinct_map inj_onD)
        with q(2) False show False by simp
      qed
      then have "path (ps ! i) \<notin> fst ` set (calls run)" using fsts by (metis set_map)
      from applyTrace_other [OF this] at False show ?thesis by simp
    qed
  qed
  have len: "length (projectStates run) = length ps" using st by simp
  from fsts c wd len each show ?thesis by blast
qed

theorem handleFixSelected_continues_on_error_witness:
  "distinct (map path (initialProjectStates [(''/a'', ''a'', None), (''/b'', ''b'', None), (''/c'', ''c'', None)]))
   \<and> map fst (calls (fst (handleFixSelected
          (\<lambda>p w. (if p = ''/a'' then Inl OtherThrown
                   else if p = ''/b'' then Inr ''ok'' else Inl (ErrorInstance ''denied''), w)) id
          (initialProjectStates [(''/a'', ''a'', None), (''/b'', ''b'', None), (''/c'', ''c'', None)])
          (initialProjectStates [(''/a'', ''a'', None), (''/b'', ''b'', None), (''/c'', ''c'', None)])
          False False ())))
       = [''/a'', ''/b'', ''/c'']
   \<and> map status (projectStates (fst (handleFixSelected
          (\<lambda>p w. (if p = ''/a'' then Inl OtherThrown
                   else if p = ''/b'' then Inr ''ok'' else Inl (ErrorInstance ''denied''), w)) id
          (initialProjectStates [(''/a'', ''a'', None), (''/b'', ''b'', None), (''/c'', ''c'', None)])
          (initialProjectStates [(''/a'', ''a'', None), (''/b'', ''b'', None), (''/c'', ''c'', None)])
          False False ())))
       = [error_status, success, error_status]
   \<and> map message (projectStates (fst (handleFixSelected
          (\<lambda>p w. (if p = ''/a'' then Inl OtherThrown
                   else if p = ''/b'' then Inr ''ok'' else Inl (ErrorInstance ''denied''), w)) id
          (initialProjectStates [(''/a'', ''a'', None), (''/b'', ''b'', None), (''/c'', ''c'', None)])
          (initialProjectStates [(''/a'', ''a'', None), (''/b'', ''b'', None), (''/c'', ''c'', None)])
          False False ())))
       = [Some ''Unknown error'', Some ''ok'', Some ''denied'']"
proof -
  let ?ps = "initialProjectStates [(''/a'', ''a'', None), (''/b'', ''b'', None), (''/c'', ''c'', None)]"
  let ?f = "\<lambda>p (w::unit). (if p = ''/a'' then Inl OtherThrown
                   else if p = ''/b'' then Inr ''ok'' else Inl (ErrorInstance ''denied''), w)"
  have h1: "distinct (map path ?ps)"
    by (simp add: initialProjectStates_def)
  have h2: "handleFixSelected ?f id ?ps ?ps False False ()
              = (fst (handleFixSelected ?f id ?ps ?ps False False ()),
                 snd (handleFixSelected ?f id ?ps ?ps False False ()))"
    by (rule surjective_pairing)
  have sel: "map path (filter selected ?ps) = [''/a'', ''/b'', ''/c'']"
    by (simp add: initialProjectStates_def)
  have st: "map status (projectStates (fst (handleFixSelected ?f id ?ps ?ps False False ())))
              = [error_status, success, error_status]"
    by (simp add: handleFixSelected_def initialProjectStates_def markFixing_def markResult_def
        recorded_def)
  have ms: "map message (projectStates (fst (handleFixSelected ?f id ?ps ?ps False False ())))
              = [Some ''Unknown error'', Some ''ok'', Some ''denied'']"
    by (simp add: handleFixSelected_def initialProjectStates_def markFixing_def markResult_def
        recorded_def errorMessageOf_def)
  from handleFixSelected_continues_on_error [OF h1 h2] have
    "map fst (calls (fst (handleFixSelected ?f id ?ps ?ps False False ())))
       = map path (filter selected ?ps)"
    by blast
  with h1 sel st ms show ?thesis by simp
qed

lemma summary_of_pending_render:
  assumes "\<forall>p \<in> set captured. status p = pending" and "filter selected captured \<noteq> []"
  shows "toast (fst (handleFixSelected f refresh captured live fx dn w))
           = Some \<lparr>toast_type = toast_success, title = ''All configs fixed'',
                   summary = SuccessfullyFixed 0\<rparr>"
proof -
  have s: "filter (\<lambda>p. status p = success) captured = []"
    using assms(1) by (auto simp: filter_empty_conv)
  have e: "filter (\<lambda>p. status p = error_status) captured = []"
    using assms(1) by (auto simp: filter_empty_conv)
  show ?thesis
    using assms(2) s e
    by (simp add: handleFixSelected_def Let_def split: prod.splits)
qed

text \<open>
  C2. The summary counts are computed from the list the handler closed over, in which
  every status is still \<open>pending\<close>, and not from the state the loop has updated. For
  two selected projects, the first of which fails and the second of which succeeds, the
  entries end as \<open>error\<close> and \<open>success\<close>, and the summary is the success toast
  "All configs fixed" with a success count of 0: neither count is the number of calls
  that succeeded or failed.
\<close>

theorem handleFixSelected_summary_counts_stale:
  "map status (projectStates (fst (handleFixSelected
          (\<lambda>p w. (if p = ''/a'' then Inl OtherThrown else Inr ''ok'', w)) id
          (initialProjectStates [(''/a'', ''a'', None), (''/b'', ''b'', None)])
          (initialProjectStates [(''/a'', ''a'', None), (''/b'', ''b'', None)])
          False False ())))
     = [error_status, success]
   \<and> toast (fst (handleFixSelected
          (\<lambda>p w. (if p = ''/a'' then Inl OtherThrown else Inr ''ok'', w)) id
          (initialProjectStates [(''/a'', ''a'', None), (''/b'', ''b'', None)])
          (initialProjectStates [(''/a'', ''a'', None), (''/b'', ''b'', None)])
          False False ()))
     = Some \<lparr>toast_type = toast_success, title = ''All configs fixed'',
             summary = SuccessfullyFixed 0\<rparr>"
  by (simp add: handleFixSelected_def initialProjectStates_def markFixing_def markResult_def
      recorded_def)

section \<open>Properties of the frontmatter utilities\<close>

subsection \<open>When the parser returns null\<close>

text \<open>
  C3, as the code has it. \<open>parseFrontmatter\<close> is a total function. It returns
  \<open>null\<close> with the whole input as body when the input does not begin with the
  delimiter, and when no second delimiter occurs from index 3 on. In every other case
  the record is not \<open>null\<close>: it is what the loop reads from the lines between the
  delimiters (lines it cannot read are skipped), and the body is the trimmed text
  after the closing delimiter.
\<close>

theorem parseFrontmatter_null_without_delimiters:
  "(\<not> prefix ''---'' content \<longrightarrow>
      parseFrontmatter toNumber content = (None :: ('n, 'o) jsobject option, content))
   \<and> (indexOf content ''---'' 3 = None \<longrightarrow>
      parseFrontmatter toNumber content = (None :: ('n, 'o) jsobject option, content))
   \<and> (prefix ''---'' content \<and> indexOf content ''---'' 3 = Some endIndex \<longrightarrow>
         parseFrontmatter toNumber content
           = (Some (parseBlock toNumber (trim (slice content 3 endIndex)) :: ('n, 'o) jsobject),
              trim (drop (endIndex + 3) content)))"
  by (simp add: parseFrontmatter_def)

theorem parseFrontmatter_null_without_delimiters_witness:
  "\<not> prefix ''---'' ''# Title''
   \<and> parseFrontmatter decimalNumber ''# Title'' = (None :: (nat, unit) jsobject option, ''# Title'')
   \<and> indexOf ''---\<newline>name: x'' ''---'' 3 = None
   \<and> parseFrontmatter decimalNumber ''---\<newline>name: x''
       = (None :: (nat, unit) jsobject option, ''---\<newline>name: x'')
   \<and> prefix ''---'' ''---\<newline>name: x\<newline>---\<newline>body''
   \<and> indexOf ''---\<newline>name: x\<newline>---\<newline>body'' ''---'' 3 = Some 12
   \<and> parseFrontmatter decimalNumber ''---\<newline>name: x\<newline>---\<newline>body''
       = (Some ([(''name'', JString ''x'')] :: (nat, unit) jsobject), ''body'')"
proof -
  have a: "\<not> prefix ''---'' ''# Title''" by simp
  have b: "indexOf ''---\<newline>name: x'' ''---'' 3 = None" by code_simp
  have c1: "prefix ''---'' ''---\<newline>name: x\<newline>---\<newline>body''" by simp
  have c2: "indexOf ''---\<newline>name: x\<newline>---\<newline>body'' ''---'' 3 = Some 12" by code_simp
  have blk: "parseBlock decimalNumber (trim (slice ''---\<newline>name: x\<newline>---\<newline>body'' 3 12))
               = ([(''name'', JString ''x'')] :: (nat, unit) jsobject)"
    by code_simp
  have bdy: "trim (drop (12 + 3) ''---\<newline>name: x\<newline>---\<newline>body'') = ''body''"
    by code_simp
  from parseFrontmatter_null_without_delimiters
         [where 'o = unit, of "''# Title''" decimalNumber 12]
       parseFrontmatter_null_without_delimiters
         [where 'o = unit, of "''---\<newline>name: x''" decimalNumber 12]
       parseFrontmatter_null_without_delimiters
         [where 'o = unit, of "''---\<newline>name: x\<newline>---\<newline>body''" decimalNumber 12]
       a b c1 c2 blk bdy
  show ?thesis by simp
qed

text \<open>
  The sentence of the specification fails on a block that is not made of \<open>key: value\<close> lines: the
  result is the empty record, not \<open>null\<close>, and the body is not the whole input.
\<close>

theorem parseFrontmatter_malformed_block_not_null:
  "parseFrontmatter decimalNumber ''---\<newline>no colon here\<newline>---\<newline>body''
     = (Some ([] :: (nat, unit) jsobject), ''body'')"
  by code_simp

subsection \<open>The typing of values\<close>

lemma typedValue_cases:
  "(CHR '','' \<in> set v \<and> \<not> prefix ''\"'' v \<longrightarrow>
      typedValue toNumber v = JArray (map trim (split CHR '','' v)))
   \<and> (prefix ''\"'' v \<and> endsWith v CHR ''\"'' \<longrightarrow> typedValue toNumber v = JString (sliceInner v))
   \<and> (CHR '','' \<notin> set v \<and> prefix [CHR 0x27] v \<and> endsWith v (CHR 0x27) \<longrightarrow>
        typedValue toNumber v = JString (sliceInner v))
   \<and> (v = ''true'' \<longrightarrow> typedValue toNumber v = JBoolean True)
   \<and> (v = ''false'' \<longrightarrow> typedValue toNumber v = JBoolean False)
   \<and> (CHR '','' \<notin> set v \<and> \<not> prefix ''\"'' v \<and> \<not> prefix [CHR 0x27] v
        \<and> v \<noteq> ''true'' \<and> v \<noteq> ''false'' \<longrightarrow>
        typedValue toNumber v = (case toNumber v of Some n \<Rightarrow> JNumber n | None \<Rightarrow> JString v))"
  by (auto simp: typedValue_def endsWith_def)

text \<open>
  C4. A value in single quotes that contains a comma is not read as a quoted string:
  the test for an inline list comes first and excludes only values that begin with a
  double quote, so the value is split at the comma and the quotes stay in the items.
\<close>

theorem typedValue_single_quoted_comma_is_split:
  "parseFrontmatter decimalNumber
       ''---\<newline>description: 'Reviews code, tests'\<newline>---\<newline>body''
     = (Some ([(''description'', JArray [[CHR 0x27] @ ''Reviews code'', ''tests'' @ [CHR 0x27]])]
               :: (nat, unit) jsobject),
        ''body'')"
  by code_simp

subsection \<open>Strings: trimming, splitting and searching\<close>

lemma dw_all: "\<forall>c \<in> set a. P c \<Longrightarrow> dropWhile P (a @ t) = dropWhile P t"
  by (induction a) auto

lemma trim_pad:
  assumes a: "\<forall>c \<in> set a. isWhiteSpace c" and b: "\<forall>c \<in> set b. isWhiteSpace c"
    and s: "s \<noteq> []" "\<not> isWhiteSpace (hd s)" "\<not> isWhiteSpace (last s)"
  shows "trim (a @ s @ b) = s"
proof -
  have "dropWhile isWhiteSpace (a @ s @ b) = dropWhile isWhiteSpace (s @ b)"
    using a by (rule dw_all)
  also have "\<dots> = s @ b" using s by (cases s) simp_all
  finally have 1: "dropWhile isWhiteSpace (a @ s @ b) = s @ b" .
  have b': "\<forall>c \<in> set (rev b). isWhiteSpace c" using b by simp
  have "dropWhile isWhiteSpace (rev b @ rev s) = dropWhile isWhiteSpace (rev s)"
    using b' by (rule dw_all)
  also have "\<dots> = rev s"
    using s by (cases "rev s") (auto simp: hd_rev)
  finally show ?thesis using 1 by (simp add: trim_def)
qed

lemma trim_ws_only: "\<forall>c \<in> set a. isWhiteSpace c \<Longrightarrow> trim a = []"
proof -
  assume "\<forall>c \<in> set a. isWhiteSpace c"
  then have d: "dropWhile isWhiteSpace a = []" by (simp only: dropWhile_eq_Nil_conv)
  show ?thesis unfolding trim_def d by simp
qed

lemma split_no_sep: "sep \<notin> set s \<Longrightarrow> split sep s = [s]"
  by (induction s) auto

lemma split_append_sep: "sep \<notin> set s \<Longrightarrow> split sep (s @ sep # t) = s # split sep t"
  by (induction s) auto

lemma split_join:
  "ls \<noteq> [] \<Longrightarrow> \<forall>l \<in> set ls. sep \<notin> set l \<Longrightarrow> split sep (join [sep] ls) = ls"
proof (induction "[sep]" ls rule: join.induct)
  case 1 then show ?case by simp
next
  case (2 x) then show ?case by (simp add: split_no_sep)
next
  case (3 x y ys)
  then show ?case by (simp add: split_append_sep)
qed

lemma dw_hd_short: "xs \<noteq> [] \<Longrightarrow> P (hd xs) \<Longrightarrow> length (dropWhile P xs) < length xs"
  by (cases xs) (auto simp: less_Suc_eq_le length_dropWhile_le)

lemma trim_fixed_ends:
  assumes t: "trim s = s" and ne: "s \<noteq> []"
  shows "\<not> isWhiteSpace (hd s) \<and> \<not> isWhiteSpace (last s)"
proof -
  have "length (dropWhile isWhiteSpace (rev (dropWhile isWhiteSpace s)))
          \<le> length (rev (dropWhile isWhiteSpace s))"
    by (rule length_dropWhile_le)
  then have l1: "length (trim s) \<le> length (dropWhile isWhiteSpace s)"
    unfolding trim_def by simp
  have h: "\<not> isWhiteSpace (hd s)"
  proof
    assume "isWhiteSpace (hd s)"
    from dw_hd_short [of s isWhiteSpace, OF ne this] l1 t show False by simp
  qed
  then have d: "dropWhile isWhiteSpace s = s" using ne by (cases s) auto
  have "\<not> isWhiteSpace (last s)"
  proof
    assume "isWhiteSpace (last s)"
    then have "isWhiteSpace (hd (rev s))" using ne by (simp add: hd_rev)
    moreover have "rev s \<noteq> []" using ne by simp
    ultimately have "length (dropWhile isWhiteSpace (rev s)) < length (rev s)"
      using dw_hd_short [of "rev s" isWhiteSpace] by simp
    moreover have "length (trim s) = length (dropWhile isWhiteSpace (rev s))"
      unfolding trim_def d by simp
    ultimately show False using t by simp
  qed
  with h show ?thesis by simp
qed

lemma sublist_sep:
  assumes c: "c \<notin> set pat" and ne: "pat \<noteq> []"
  shows "sublist pat (a @ c # b) \<longleftrightarrow> sublist pat a \<or> sublist pat b"
proof
  assume "sublist pat (a @ c # b)"
  then consider "sublist pat a" | "sublist pat (c # b)"
    | xs1 xs2 where "pat = xs1 @ xs2" "suffix xs1 a" "prefix xs2 (c # b)"
    unfolding sublist_append by blast
  then show "sublist pat a \<or> sublist pat b"
  proof cases
    case 1 then show ?thesis by simp
  next
    case 2
    have "\<not> prefix pat (c # b)"
      using c ne by (cases pat) auto
    with 2 show ?thesis by (simp add: sublist_Cons_right)
  next
    case 3
    show ?thesis
    proof (cases xs2)
      case Nil
      with 3 show ?thesis by auto
    next
      case (Cons x xs)
      with 3(3) have "x = c" by simp
      with 3(1) Cons c show ?thesis by simp
    qed
  qed
next
  assume "sublist pat a \<or> sublist pat b"
  then show "sublist pat (a @ c # b)"
    by (auto simp: sublist_append sublist_Cons_right)
qed

lemma firstOccurrence_skip:
  "\<not> sublist pat xs \<Longrightarrow> xs \<noteq> [] \<Longrightarrow> last xs \<notin> set pat \<Longrightarrow> pat \<noteq> [] \<Longrightarrow>
     firstOccurrence pat (xs @ pat @ rest) k = Some (k + length xs)"
proof (induction xs arbitrary: k)
  case Nil then show ?case by simp
next
  case (Cons c xs)
  have np: "\<not> prefix pat ((c # xs) @ pat @ rest)"
  proof
    assume "prefix pat ((c # xs) @ pat @ rest)"
    then consider "prefix pat (c # xs)" | us where "pat = (c # xs) @ us"
      unfolding prefix_append by blast
    then show False
    proof cases
      case 1 then show ?thesis using Cons.prems(1) by (simp add: prefix_imp_sublist)
    next
      case 2
      have "last (c # xs) \<in> set (c # xs)" by (rule last_in_set) simp
      then have "last (c # xs) \<in> set pat" using 2 by simp
      then show ?thesis using Cons.prems(3) by simp
    qed
  qed
  show ?case
  proof (cases "xs = []")
    case True
    obtain p ps where "pat = p # ps" using Cons.prems(4) by (cases pat) auto
    then show ?thesis using np True by simp
  next
    case False
    have "\<not> sublist pat xs" using Cons.prems(1) by (simp add: sublist_Cons_right)
    moreover have "last xs \<notin> set pat" using Cons.prems(3) False by simp
    ultimately have "firstOccurrence pat (xs @ pat @ rest) (Suc k) = Some (Suc k + length xs)"
      using Cons.IH False Cons.prems(4) by simp
    then show ?thesis using np by simp
  qed
qed

subsection \<open>The round trip of generator and parser\<close>

lemma stringRecord_simps [simp]:
  "stringRecord [] = []"
  "stringRecord (e # es) = (fst e, JString (snd e)) # stringRecord es"
  by (simp_all add: stringRecord_def)

lemma entryLines_plain:
  "plainValue num v \<Longrightarrow> entryLines sn so (k, JString v) = [plainLine (k, v)]"
  by (simp add: entryLines_def plainValue_def specValue_def plainLine_def)

lemma join_delims:
  "join [sep] (x # ls @ [y]) = x @ [sep] @ concat (map (\<lambda>l. l @ [sep]) ls) @ y"
  by (induction ls arbitrary: x) auto

lemma concat_sep_join:
  "ls \<noteq> [] \<Longrightarrow> concat (map (\<lambda>l. l @ [sep]) ls) = join [sep] ls @ [sep]"
  by (induction "[sep]" ls rule: join.induct) auto

lemma join_hd: "ls \<noteq> [] \<Longrightarrow> hd ls \<noteq> [] \<Longrightarrow> join sep ls \<noteq> [] \<and> hd (join sep ls) = hd (hd ls)"
  by (induction sep ls rule: join.induct) auto

lemma join_last:
  "ls \<noteq> [] \<Longrightarrow> last ls \<noteq> [] \<Longrightarrow>
     join sep ls \<noteq> [] \<and> last (join sep ls) = last (last ls)"
  by (induction sep ls rule: join.induct) auto

lemma no_delim_lines:
  "\<forall>l \<in> set ls. \<not> sublist ''---'' l \<Longrightarrow>
     \<not> sublist ''---'' (concat (map (\<lambda>l. l @ [CHR 0x0A]) ls))"
proof (induction ls)
  case Nil then show ?case by simp
next
  case (Cons l ls)
  have "sublist ''---'' (l @ CHR 0x0A # concat (map (\<lambda>l. l @ [CHR 0x0A]) ls))
          \<longleftrightarrow> sublist ''---'' l \<or> sublist ''---'' (concat (map (\<lambda>l. l @ [CHR 0x0A]) ls))"
    by (rule sublist_sep) simp_all
  with Cons show ?case by simp
qed

lemma plainLine_props:
  assumes k: "plainKey k" and v: "plainValue num v"
  shows "plainLine (k, v) \<noteq> []" "\<not> isWhiteSpace (hd (plainLine (k, v)))"
    "\<not> isWhiteSpace (last (plainLine (k, v)))" "CHR 0x0A \<notin> set (plainLine (k, v))"
    "\<not> sublist ''---'' (plainLine (k, v))"
proof -
  have kne: "k \<noteq> []" and vne: "v \<noteq> []"
    using k v by (simp_all add: plainKey_def plainValue_def specValue_def)
  have kt: "trim k = k" and vt: "trim v = v"
    using k v by (simp_all add: plainKey_def plainValue_def specValue_def)
  show "plainLine (k, v) \<noteq> []" using kne by (simp add: plainLine_def)
  show "\<not> isWhiteSpace (hd (plainLine (k, v)))"
    using trim_fixed_ends [OF kt kne] kne by (simp add: plainLine_def)
  show "\<not> isWhiteSpace (last (plainLine (k, v)))"
    using trim_fixed_ends [OF vt vne] vne by (simp add: plainLine_def)
  show "CHR 0x0A \<notin> set (plainLine (k, v))"
    using k v by (simp add: plainLine_def plainKey_def plainValue_def specValue_def)
  have 1: "sublist ''---'' (k @ CHR '':'' # (CHR '' '' # v))
            \<longleftrightarrow> sublist ''---'' k \<or> sublist ''---'' (CHR '' '' # v)"
    by (rule sublist_sep) simp_all
  have 2: "sublist ''---'' ([] @ CHR '' '' # v) \<longleftrightarrow> sublist ''---'' [] \<or> sublist ''---'' v"
    by (rule sublist_sep) simp_all
  show "\<not> sublist ''---'' (plainLine (k, v))"
    using 1 2 k v by (simp add: plainLine_def plainKey_def plainValue_def specValue_def)
qed

lemma firstOccurrence_char:
  "c \<notin> set k \<Longrightarrow> firstOccurrence [c] (k @ c # t) n = Some (n + length k)"
  by (induction k arbitrary: n) auto

lemma typedValue_plain:
  "plainValue num v \<Longrightarrow> typedValue num v = JString v"
  by (cases v) (auto simp: typedValue_def plainValue_def specValue_def)

lemma parseLine_plain:
  assumes k: "plainKey k" and v: "plainValue num v" and st: "\<not> inArray st"
  shows "parseLine num all (plainLine (k, v)) st
           = st\<lparr>frontmatter := assignProperty k (JString v) (frontmatter st)\<rparr>"
proof -
  let ?l = "plainLine (k, v)"
  have tl: "trim ?l = ?l"
    using trim_pad [of "[]" "[]" ?l] plainLine_props(1-3) [OF k v] by simp
  have l: "?l = k @ CHR '':'' # CHR '' '' # v" by (simp add: plainLine_def)
  have ci: "indexOf ?l '':'' 0 = Some (length k)"
    using k by (simp add: indexOf_def l firstOccurrence_char plainKey_def)
  have kk: "trim (slice ?l 0 (length k)) = k"
    using k by (simp add: slice_def l plainKey_def)
  have vt: "trim v = v" and vne: "v \<noteq> []" using v by (simp_all add: plainValue_def specValue_def)
  have "trim ([CHR '' ''] @ v @ []) = v"
    by (rule trim_pad) (use trim_fixed_ends [OF vt vne] vne in \<open>simp_all add: isWhiteSpace_def\<close>)
  then have vv: "trim (drop (Suc (length k)) ?l) = v" by (simp add: l)
  have klen: "length k > 0" using k by (simp add: plainKey_def)
  show ?thesis
    using st klen vne
    by (simp add: parseLine_def Let_def tl ci kk vv typedValue_plain [OF v])
qed

lemma parseLine_empty: "\<not> inArray st \<Longrightarrow> parseLine num all [] st = st"
  by (simp add: parseLine_def trim_def indexOf_def)

lemma parseLines_plain:
  assumes "\<forall>e \<in> set es. plainKey (fst e) \<and> plainValue num (snd e)" and "\<not> inArray st"
  shows "parseLines num all (map plainLine es) st
           = st\<lparr>frontmatter :=
                  foldl (\<lambda>obj e. assignProperty (fst e) (JString (snd e)) obj) (frontmatter st) es\<rparr>"
  using assms
proof (induction es arbitrary: st)
  case Nil then show ?case by simp
next
  case (Cons e es)
  obtain k v where e: "e = (k, v)" by (cases e)
  have "parseLine num all (plainLine (k, v)) st
          = st\<lparr>frontmatter := assignProperty k (JString v) (frontmatter st)\<rparr>"
    using Cons.prems e by (intro parseLine_plain) auto
  then show ?case using Cons e by simp
qed

lemma replaceProperty_new:
  "k \<notin> fst ` set obj \<Longrightarrow> replaceProperty k v obj = obj @ [(k, v)]"
  by (induction obj) auto

lemma assign_fold:
  assumes "distinct (map fst es)" and "\<forall>e \<in> set es. fst e \<noteq> ''__proto__''"
    and "fst ` set es \<inter> fst ` set acc = {}"
  shows "foldl (\<lambda>obj e. assignProperty (fst e) (JString (snd e)) obj) acc es
           = acc @ stringRecord es"
  using assms
proof (induction es arbitrary: acc)
  case Nil then show ?case by simp
next
  case (Cons e es)
  have new: "fst e \<notin> fst ` set acc" using Cons.prems(3) by auto
  have step: "assignProperty (fst e) (JString (snd e)) acc = acc @ [(fst e, JString (snd e))]"
    using Cons.prems(2) new by (simp add: assignProperty_def replaceProperty_new)
  have disj: "fst ` set es \<inter> fst ` set (acc @ [(fst e, JString (snd e))]) = {}"
    using Cons.prems(1,3) by auto
  show ?case
    using Cons.IH [OF _ _ disj] Cons.prems(1,2) step by simp
qed

lemma drop_len: "n = length xs \<Longrightarrow> drop n (xs @ ys) = ys"
  by simp

lemma entryLines_record:
  "\<forall>e \<in> set es. plainValue num (snd e) \<Longrightarrow>
     concat (map (entryLines sn so) (stringRecord es)) = map plainLine es"
  by (induction es) (auto simp: entryLines_plain)

lemma trim_body:
  assumes "trim body = body"
  shows "trim ([CHR 0x0A, CHR 0x0A] @ body) = body"
proof (cases "body = []")
  case True
  have "trim [CHR 0x0A, CHR 0x0A] = []"
    by (rule trim_ws_only) (simp add: isWhiteSpace_def)
  with True show ?thesis by simp
next
  case False
  have "trim ([CHR 0x0A, CHR 0x0A] @ body @ []) = body"
    by (rule trim_pad) (use trim_fixed_ends [OF assms False] False in \<open>simp_all add: isWhiteSpace_def\<close>)
  then show ?thesis by simp
qed

lemma parseBlock_plain:
  assumes d: "distinct (map fst es)"
    and p: "\<forall>e \<in> set es. plainKey (fst e) \<and> plainValue num (snd e)"
  shows "parseBlock num (trim (CHR 0x0A # concat (map (\<lambda>l. l @ [CHR 0x0A]) (map plainLine es))))
           = stringRecord es"
proof (cases "es = []")
  case True
  have "trim [CHR 0x0A] = []" by (rule trim_ws_only) (simp add: isWhiteSpace_def)
  then show ?thesis using True by (simp add: parseBlock_def parseLine_empty)
next
  case False
  let ?ls = "map plainLine es"
  have lsne: "?ls \<noteq> []" using False by simp
  have props: "\<forall>l \<in> set ?ls. l \<noteq> [] \<and> \<not> isWhiteSpace (hd l) \<and> \<not> isWhiteSpace (last l)
                 \<and> CHR 0x0A \<notin> set l"
  proof
    fix l assume "l \<in> set ?ls"
    then obtain e where e: "e \<in> set es" "l = plainLine e" by auto
    obtain k v where kv: "e = (k, v)" by (cases e)
    from p e kv have "plainKey k" "plainValue num v" by auto
    from plainLine_props(1-4) [OF this] e kv
    show "l \<noteq> [] \<and> \<not> isWhiteSpace (hd l) \<and> \<not> isWhiteSpace (last l) \<and> CHR 0x0A \<notin> set l"
      by simp
  qed
  have hdl: "hd ?ls \<in> set ?ls" by (rule hd_in_set [OF lsne])
  have lastl: "last ?ls \<in> set ?ls" by (rule last_in_set [OF lsne])
  have j1: "join [CHR 0x0A] ?ls \<noteq> [] \<and> hd (join [CHR 0x0A] ?ls) = hd (hd ?ls)"
    using join_hd [OF lsne] props hdl by blast
  have j2: "last (join [CHR 0x0A] ?ls) = last (last ?ls)"
    using join_last [OF lsne] props lastl by blast
  have "trim ([CHR 0x0A] @ join [CHR 0x0A] ?ls @ [CHR 0x0A]) = join [CHR 0x0A] ?ls"
  proof (rule trim_pad)
    show "join [CHR 0x0A] ?ls \<noteq> []" using j1 by simp
    show "\<not> isWhiteSpace (hd (join [CHR 0x0A] ?ls))" using j1 props hdl by metis
    show "\<not> isWhiteSpace (last (join [CHR 0x0A] ?ls))" using j2 props lastl by metis
  qed (simp_all add: isWhiteSpace_def)
  then have t: "trim (CHR 0x0A # concat (map (\<lambda>l. l @ [CHR 0x0A]) ?ls)) = join [CHR 0x0A] ?ls"
    using concat_sep_join [OF lsne, of "CHR 0x0A"] by simp
  have sp: "split (CHR 0x0A) (join [CHR 0x0A] ?ls) = ?ls"
    using split_join [OF lsne] props by blast
  let ?st0 = "\<lparr>frontmatter = [], currentKey = [], inArray = False, arrayValues = []\<rparr>
                :: ('a, 'b) parserState"
  have pl: "parseLines num ?ls ?ls ?st0
              = ?st0\<lparr>frontmatter :=
                  foldl (\<lambda>obj e. assignProperty (fst e) (JString (snd e)) obj) (frontmatter ?st0) es\<rparr>"
    by (rule parseLines_plain [OF p]) simp
  have np: "\<forall>e \<in> set es. fst e \<noteq> ''__proto__''" using p by (auto simp: plainKey_def)
  have fold: "foldl (\<lambda>obj e. assignProperty (fst e) (JString (snd e)) obj) [] es
                = stringRecord es"
    using assign_fold [OF d np, of "[]"] by simp
  show ?thesis
    unfolding t parseBlock_def sp by (simp add: pl fold)
qed

lemma content_shape:
  assumes p: "\<forall>e \<in> set es. plainKey (fst e) \<and> plainValue num (snd e)"
  shows "createMarkdownContent sn so (stringRecord es) body
          = ''---'' @ (CHR 0x0A # concat (map (\<lambda>l. l @ [CHR 0x0A]) (map plainLine es)))
              @ ''---'' @ [CHR 0x0A, CHR 0x0A] @ body"
proof -
  have "concat (map (entryLines sn so) (stringRecord es)) = map plainLine es"
    using p by (intro entryLines_record) auto
  then show ?thesis
    using join_delims [of "CHR 0x0A" "''---''" "map plainLine es" "''---''"]
    by (simp add: createMarkdownContent_def generateFrontmatter_def)
qed

lemma closing_index:
  assumes p: "\<forall>e \<in> set es. plainKey (fst e) \<and> plainValue num (snd e)"
    and mid: "mid = CHR 0x0A # concat (map (\<lambda>l. l @ [CHR 0x0A]) (map plainLine es))"
  shows "indexOf (''---'' @ mid @ ''---'' @ rest) ''---'' 3 = Some (3 + length mid)"
proof -
  have nl: "\<forall>l \<in> set (map plainLine es). \<not> sublist ''---'' l"
  proof
    fix l assume "l \<in> set (map plainLine es)"
    then obtain e where e: "e \<in> set es" "l = plainLine e" by auto
    obtain k v where kv: "e = (k, v)" by (cases e)
    from p e kv have "plainKey k" "plainValue num v" by auto
    from plainLine_props(5) [OF this] e kv show "\<not> sublist ''---'' l" by simp
  qed
  have "sublist ''---'' ([] @ CHR 0x0A # concat (map (\<lambda>l. l @ [CHR 0x0A]) (map plainLine es)))
          \<longleftrightarrow> sublist ''---'' [] \<or> sublist ''---'' (concat (map (\<lambda>l. l @ [CHR 0x0A]) (map plainLine es)))"
    by (rule sublist_sep) simp_all
  then have ns: "\<not> sublist ''---'' mid"
    using no_delim_lines [OF nl] mid by simp
  have lastmid: "last mid = CHR 0x0A"
  proof (cases "es = []")
    case True then show ?thesis using mid by simp
  next
    case False
    then have "map plainLine es \<noteq> []" by simp
    from concat_sep_join [OF this, of "CHR 0x0A"] show ?thesis using mid by simp
  qed
  have midne: "mid \<noteq> []" using mid by simp
  have "firstOccurrence ''---'' (mid @ ''---'' @ rest) 3 = Some (3 + length mid)"
    by (rule firstOccurrence_skip [OF ns midne]) (simp_all add: lastmid)
  then show ?thesis by (simp add: indexOf_def numeral_3_eq_3)
qed

text \<open>
  C5, as the code has it. Take a record of strings with pairwise different keys in which
  every key is non-empty, trimmed, free of colon, newline and the delimiter and is not
  \<open>__proto__\<close>, and every value meets the conditions of the specification and is
  moreover trimmed and free of the delimiter; take any trimmed body. Then parsing the
  text that \<open>createMarkdownContent\<close> writes gives back this record and this body.
\<close>

theorem parseFrontmatter_createMarkdownContent_roundtrip:
  assumes d: "distinct (map fst record)"
    and p: "\<forall>e \<in> set record. plainKey (fst e) \<and> plainValue toNumber (snd e)"
    and b: "trim body = body"
  shows "parseFrontmatter toNumber
           (createMarkdownContent showNumber stringify (stringRecord record) body)
         = (Some (stringRecord record :: ('n, 'o) jsobject), body)"
proof -
  define mid where "mid = CHR 0x0A # concat (map (\<lambda>l. l @ [CHR 0x0A]) (map plainLine record))"
  define content where "content = ''---'' @ mid @ ''---'' @ [CHR 0x0A, CHR 0x0A] @ body"
  have c: "createMarkdownContent showNumber stringify
             (stringRecord record) body = content"
    unfolding content_def mid_def by (rule content_shape [OF p])
  have pre: "prefix ''---'' content" by (simp add: content_def)
  have idx: "indexOf content ''---'' 3 = Some (3 + length mid)"
    unfolding content_def by (rule closing_index [OF p mid_def])
  have sl: "slice content 3 (3 + length mid) = mid"
    by (simp add: slice_def content_def)
  have c2: "content = (''---'' @ mid @ ''---'') @ [CHR 0x0A, CHR 0x0A] @ body"
    by (simp add: content_def)
  have dr: "drop (6 + length mid) content = [CHR 0x0A, CHR 0x0A] @ body"
    unfolding c2 by (rule drop_len) simp
  have blk: "parseBlock toNumber (trim mid) = stringRecord record"
    unfolding mid_def by (rule parseBlock_plain [OF d p])
  show ?thesis
    unfolding c
    by (simp add: parseFrontmatter_def pre idx sl dr blk trim_body [OF b] del: append.simps)
qed


theorem parseFrontmatter_createMarkdownContent_roundtrip_witness:
  "distinct (map fst [(''name'', ''reviewer''), (''model'', ''sonnet'')])
   \<and> plainKey ''name'' \<and> plainValue decimalNumber ''reviewer''
   \<and> plainKey ''model'' \<and> plainValue decimalNumber ''sonnet''
   \<and> trim ''You are a reviewer.'' = ''You are a reviewer.''
   \<and> parseFrontmatter decimalNumber
         (createMarkdownContent decimalText id
            (stringRecord [(''name'', ''reviewer''), (''model'', ''sonnet'')])
            ''You are a reviewer.'')
       = (Some ([(''name'', JString ''reviewer''), (''model'', JString ''sonnet'')]
                 :: (nat, string) jsobject),
          ''You are a reviewer.'')"
proof -
  have h1: "distinct (map fst [(''name'', ''reviewer''), (''model'', ''sonnet'')])"
    by simp
  have h2: "\<forall>e \<in> set [(''name'', ''reviewer''), (''model'', ''sonnet'')].
              plainKey (fst e) \<and> plainValue decimalNumber (snd e)"
    by code_simp
  have h3: "trim ''You are a reviewer.'' = ''You are a reviewer.''"
    by code_simp
  have k1: "plainKey ''name''" and v1: "plainValue decimalNumber ''reviewer''"
    and k2: "plainKey ''model''" and v2: "plainValue decimalNumber ''sonnet''"
    using h2 by simp_all
  from parseFrontmatter_createMarkdownContent_roundtrip
         [OF h1 h2 h3, where 'o = string, of decimalText id] h1 k1 v1 k2 v2 h3
  show ?thesis by simp
qed

text \<open>
  The round trip as the specification states it fails: the value \<open>a---b\<close> and the body \<open>body\<close> meet every
  condition of the specification, and the parser finds its closing delimiter inside the
  value.
\<close>

theorem roundtrip_fails_on_delimiter_in_value:
  "specValue decimalNumber ''a---b'' \<and> specBody ''body''
   \<and> parseFrontmatter decimalNumber
         (createMarkdownContent decimalText id (stringRecord [(''name'', ''a---b'')]) ''body'')
       = (Some ([(''name'', JString ''a'')] :: (nat, string) jsobject),
          ''b\<newline>---\<newline>\<newline>body'')
   \<and> parseFrontmatter decimalNumber
         (createMarkdownContent decimalText id (stringRecord [(''name'', ''a---b'')]) ''body'')
       \<noteq> (Some (stringRecord [(''name'', ''a---b'')] :: (nat, string) jsobject), ''body'')"
proof -
  have v: "specValue decimalNumber ''a---b''" by code_simp
  have b: "specBody ''body''" by code_simp
  have r: "parseFrontmatter decimalNumber
             (createMarkdownContent decimalText id (stringRecord [(''name'', ''a---b'')]) ''body'')
           = (Some ([(''name'', JString ''a'')] :: (nat, string) jsobject),
              ''b\<newline>---\<newline>\<newline>body'')"
    by code_simp
  show ?thesis unfolding r using v b by simp
qed

section \<open>Properties of the consistency engine\<close>

lemma legacy_universal_differ [simp]:
  "legacyPath p \<noteq> universalPath p" "universalPath p \<noteq> legacyPath p"
  by (simp_all add: legacyPath_def universalPath_def)

lemma state_of_classification:
  "classify (statusOf fs (legacyPath p)) (statusOf fs (universalPath p))
      (symlinkTarget fs (legacyPath p) = Some (universalPath p)) = Some c \<Longrightarrow>
   \<exists>st. get_project_config_state fs p = Some st \<and> config_state st = c
        \<and> can_auto_fix st = (c \<noteq> conflict)
        \<and> claude_md_status st = statusOf fs (legacyPath p)
        \<and> agents_md_status st = statusOf fs (universalPath p)"
  by (simp add: get_project_config_state_def Let_def)

text \<open>
  C1, on the model of the classification written from section 4.5. For every file
  system and project, with the statuses of the legacy and the universal file and the
  test whether the legacy link points at the universal file: each row of the table gives
  its classification, and whenever a state is returned its \<open>can_auto_fix\<close> flag is
  true exactly when the classification is not \<open>conflict\<close>.
\<close>

theorem get_project_config_state_decision_table:
  fixes fs :: FileSystem and p :: string
  defines "legacy \<equiv> statusOf fs (legacyPath p)"
    and "universal \<equiv> statusOf fs (universalPath p)"
    and "linked \<equiv> (symlinkTarget fs (legacyPath p) = Some (universalPath p))"
    and "result \<equiv> map_option (\<lambda>st. (config_state st, can_auto_fix st))
                     (get_project_config_state fs p)"
  shows "(legacy = symlink \<and> universal = plain_file \<and> linked \<longrightarrow> result = Some (correct, True))
       \<and> (legacy = missing \<and> universal = plain_file \<longrightarrow> result = Some (missing_symlink, True))
       \<and> (legacy = plain_file \<and> universal = missing \<longrightarrow> result = Some (needs_migration, True))
       \<and> (legacy = plain_file \<and> universal = plain_file \<longrightarrow> result = Some (conflict, False))
       \<and> (legacy = missing \<and> universal = missing \<longrightarrow> result = Some (empty_state, True))
       \<and> (legacy = symlink \<and> universal = plain_file \<and> \<not> linked \<longrightarrow> result = Some (conflict, False))
       \<and> (\<forall>st. get_project_config_state fs p = Some st \<longrightarrow>
              can_auto_fix st = (config_state st \<noteq> conflict))"
  unfolding legacy_def universal_def linked_def result_def
  by (auto simp: get_project_config_state_def Let_def)

theorem get_project_config_state_decision_table_witness:
  "statusOf [legacyPath ''/p'' \<mapsto> SymbolicLink (universalPath ''/p''),
             universalPath ''/p'' \<mapsto> RegularFile ''Hello''] (legacyPath ''/p'') = symlink
   \<and> statusOf [legacyPath ''/p'' \<mapsto> SymbolicLink (universalPath ''/p''),
             universalPath ''/p'' \<mapsto> RegularFile ''Hello''] (universalPath ''/p'') = plain_file
   \<and> map_option (\<lambda>st. (config_state st, can_auto_fix st))
        (get_project_config_state
           [legacyPath ''/p'' \<mapsto> SymbolicLink (universalPath ''/p''),
            universalPath ''/p'' \<mapsto> RegularFile ''Hello''] ''/p'')
       = Some (correct, True)
   \<and> map_option (\<lambda>st. (config_state st, can_auto_fix st))
        (get_project_config_state [universalPath ''/p'' \<mapsto> RegularFile ''Hello''] ''/p'')
       = Some (missing_symlink, True)
   \<and> map_option (\<lambda>st. (config_state st, can_auto_fix st))
        (get_project_config_state [legacyPath ''/p'' \<mapsto> RegularFile ''Hello''] ''/p'')
       = Some (needs_migration, True)
   \<and> map_option (\<lambda>st. (config_state st, can_auto_fix st))
        (get_project_config_state
           [legacyPath ''/p'' \<mapsto> RegularFile ''Hello'',
            universalPath ''/p'' \<mapsto> RegularFile ''World''] ''/p'')
       = Some (conflict, False)
   \<and> map_option (\<lambda>st. (config_state st, can_auto_fix st))
        (get_project_config_state Map.empty ''/p'')
       = Some (empty_state, True)
   \<and> map_option (\<lambda>st. (config_state st, can_auto_fix st))
        (get_project_config_state
           [legacyPath ''/p'' \<mapsto> SymbolicLink ''/elsewhere/NOTES.md'',
            universalPath ''/p'' \<mapsto> RegularFile ''Hello''] ''/p'')
       = Some (conflict, False)"
proof -
  let ?l = "legacyPath ''/p''" and ?u = "universalPath ''/p''"
  have s1: "statusOf [?l \<mapsto> SymbolicLink ?u, ?u \<mapsto> RegularFile ''Hello''] ?l = symlink"
    by (simp add: statusOf_def)
  have s2: "statusOf [?l \<mapsto> SymbolicLink ?u, ?u \<mapsto> RegularFile ''Hello''] ?u = plain_file"
    by (simp add: statusOf_def)
  have s3: "symlinkTarget [?l \<mapsto> SymbolicLink ?u, ?u \<mapsto> RegularFile ''Hello''] ?l = Some ?u"
    by (simp add: symlinkTarget_def)
  have r1: "map_option (\<lambda>st. (config_state st, can_auto_fix st))
              (get_project_config_state [?l \<mapsto> SymbolicLink ?u, ?u \<mapsto> RegularFile ''Hello''] ''/p'')
            = Some (correct, True)"
    using get_project_config_state_decision_table
            [of "[?l \<mapsto> SymbolicLink ?u, ?u \<mapsto> RegularFile ''Hello'']" "''/p''"] s1 s2 s3
    by simp
  have others:
    "map_option (\<lambda>st. (config_state st, can_auto_fix st))
        (get_project_config_state [?u \<mapsto> RegularFile ''Hello''] ''/p'')
       = Some (missing_symlink, True)"
    "map_option (\<lambda>st. (config_state st, can_auto_fix st))
        (get_project_config_state [?l \<mapsto> RegularFile ''Hello''] ''/p'')
       = Some (needs_migration, True)"
    "map_option (\<lambda>st. (config_state st, can_auto_fix st))
        (get_project_config_state [?l \<mapsto> RegularFile ''Hello'', ?u \<mapsto> RegularFile ''World''] ''/p'')
       = Some (conflict, False)"
    "map_option (\<lambda>st. (config_state st, can_auto_fix st))
        (get_project_config_state Map.empty ''/p'')
       = Some (empty_state, True)"
    "map_option (\<lambda>st. (config_state st, can_auto_fix st))
        (get_project_config_state
           [?l \<mapsto> SymbolicLink ''/elsewhere/NOTES.md'', ?u \<mapsto> RegularFile ''Hello''] ''/p'')
       = Some (conflict, False)"
    by (simp_all add: get_project_config_state_def statusOf_def symlinkTarget_def Let_def
        universalPath_def legacyPath_def)
  from s1 s2 r1 others show ?thesis by simp
qed

lemma fix_project_config_reaches_correct:
  assumes "fix_project_config fs p = (Inr m, fs')"
  shows "\<exists>st. get_project_config_state fs' p = Some st \<and> config_state st = correct"
proof -
  obtain st0 where st0: "get_project_config_state fs p = Some st0"
    using assms by (cases "get_project_config_state fs p") (auto simp: fix_project_config_def)
  show ?thesis
  proof (cases "config_state st0")
    case correct
    with assms st0 show ?thesis by (auto simp: fix_project_config_def Let_def)
  next
    case missing_symlink
    with assms st0 have fs': "fs' = fs(legacyPath p \<mapsto> SymbolicLink (universalPath p))"
      by (auto simp: fix_project_config_def Let_def)
    from st0 missing_symlink have "statusOf fs (universalPath p) = plain_file"
      by (auto simp: get_project_config_state_def Let_def elim!: classify.elims)
    then show ?thesis
      unfolding fs'
      by (simp add: get_project_config_state_def statusOf_def symlinkTarget_def Let_def)
  next
    case needs_migration
    with assms st0 obtain c where
      fs': "fs' = fs(universalPath p \<mapsto> RegularFile c, legacyPath p \<mapsto> SymbolicLink (universalPath p))"
      by (auto simp: fix_project_config_def Let_def split: option.splits Node.splits)
    show ?thesis
      unfolding fs'
      by (simp add: get_project_config_state_def statusOf_def symlinkTarget_def Let_def)
  next
    case conflict
    with assms st0 show ?thesis by (auto simp: fix_project_config_def Let_def)
  next
    case empty_state
    with assms st0 have
      fs': "fs' = fs(universalPath p \<mapsto> RegularFile [], legacyPath p \<mapsto> SymbolicLink (universalPath p))"
      by (auto simp: fix_project_config_def Let_def)
    show ?thesis
      unfolding fs'
      by (simp add: get_project_config_state_def statusOf_def symlinkTarget_def Let_def)
  qed
qed

text \<open>
  C8, on the model of the fix written from section 4.5. When the state of a project is
  classified \<open>correct\<close>, \<open>fix_project_config\<close> returns a message, not an error, and
  the file system after the call is the file system before it.
\<close>

theorem fix_project_config_correct_is_noop:
  assumes "get_project_config_state fs p = Some st" and "config_state st = correct"
  shows "fix_project_config fs p = (Inr AlreadyCorrect, fs)"
  using assms by (simp add: fix_project_config_def)

theorem fix_project_config_correct_is_noop_witness:
  "map_option config_state
      (get_project_config_state
         [legacyPath ''/p'' \<mapsto> SymbolicLink (universalPath ''/p''),
          universalPath ''/p'' \<mapsto> RegularFile ''Hello''] ''/p'') = Some correct
   \<and> fix_project_config
        [legacyPath ''/p'' \<mapsto> SymbolicLink (universalPath ''/p''),
         universalPath ''/p'' \<mapsto> RegularFile ''Hello''] ''/p''
      = (Inr AlreadyCorrect,
         [legacyPath ''/p'' \<mapsto> SymbolicLink (universalPath ''/p''),
          universalPath ''/p'' \<mapsto> RegularFile ''Hello''])"
proof -
  let ?fs = "[legacyPath ''/p'' \<mapsto> SymbolicLink (universalPath ''/p''),
              universalPath ''/p'' \<mapsto> RegularFile ''Hello'']"
  obtain st where st: "get_project_config_state ?fs ''/p'' = Some st" "config_state st = correct"
    by (simp add: get_project_config_state_def statusOf_def symlinkTarget_def Let_def)
  from fix_project_config_correct_is_noop [OF st] st show ?thesis by simp
qed

section \<open>Properties of the duplicate resolver\<close>

lemma ranked_length [simp]: "length (ranked xs) = length xs"
  by (simp add: ranked_def)

lemma ranked_precedence: "map precedence (ranked xs) = [0..<length xs]"
proof -
  have "map precedence (ranked xs) = map fst (enumerate 0 xs)"
    by (simp add: ranked_def asDuplicate_def o_def)
  then show ?thesis by simp
qed

lemma map_snd_enumerate_fun: "map (\<lambda>x. f (snd x)) (enumerate n xs) = map f xs"
  by (induction xs arbitrary: n) auto

lemma ranked_reported: "map reported (ranked xs) = map located xs"
proof -
  have "map reported (ranked xs) = map (\<lambda>x. located (snd x)) (enumerate 0 xs)"
    by (simp add: ranked_def asDuplicate_def reported_def located_def o_def)
  then show ?thesis by (simp only: map_snd_enumerate_fun)
qed

lemma ranked_scopes: "map dup_scope (ranked xs) = map ent_scope xs"
proof -
  have "map dup_scope (ranked xs) = map (\<lambda>x. ent_scope (snd x)) (enumerate 0 xs)"
    by (simp add: ranked_def asDuplicate_def o_def)
  then show ?thesis by (simp only: map_snd_enumerate_fun)
qed

lemma sorted_hd_least:
  assumes "sorted (map f xs)" and "x \<in> set xs"
  shows "f (hd xs) \<le> f x"
  using assms by (cases xs) auto

lemma scopeRank_inj: "scopeRank a = scopeRank b \<Longrightarrow> a = b"
  by (cases a; cases b; simp)

lemma sharing_mset: "mset es' = mset es \<Longrightarrow> mset (sharing k es') = mset (sharing k es)"
  by (simp add: sharing_def)

lemma find_duplicates_mem:
  "g \<in> set (find_duplicates es) \<longleftrightarrow>
     (\<exists>k. g = groupOf es k \<and> 2 \<le> length (sharing k es))"
proof
  assume "g \<in> set (find_duplicates es)"
  then show "\<exists>k. g = groupOf es k \<and> 2 \<le> length (sharing k es)"
    by (auto simp: find_duplicates_def)
next
  assume "\<exists>k. g = groupOf es k \<and> 2 \<le> length (sharing k es)"
  then obtain k where k: "g = groupOf es k" "2 \<le> length (sharing k es)" by blast
  then have "sharing k es \<noteq> []" by auto
  then obtain e where "e \<in> set (sharing k es)" by (cases "sharing k es") auto
  then have "k \<in> set (map groupKey (filter grouped es))"
    by (auto simp: sharing_def)
  with k show "g \<in> set (find_duplicates es)"
    by (auto simp: find_duplicates_def)
qed

lemma head_scope:
  assumes "sharing k es \<noteq> []"
  shows "hd (entities (groupOf es k)) = asDuplicate (0, hd (sort_key (\<lambda>e. scopeRank (ent_scope e)) (sharing k es)))"
proof -
  let ?s = "sort_key (\<lambda>e. scopeRank (ent_scope e)) (sharing k es)"
  have "?s \<noteq> []" using assms by (metis length_0_conv length_sort)
  then obtain x xs where "?s = x # xs" by (cases ?s) auto
  then show ?thesis by (simp add: groupOf_def ranked_def enumerate_simps)
qed

lemma sharing_as_filter:
  "sharing k es = filter (\<lambda>e. grouped e \<and> ent_type e = fst k \<and> ent_name e = snd k) es"
  by (auto simp: sharing_def groupKey_def prod_eq_iff intro!: filter_cong)

lemma group_entities:
  "entities (groupOf es k) = ranked (sort_key (\<lambda>e. scopeRank (ent_scope e)) (sharing k es))"
  by (simp add: groupOf_def)

lemma group_reported:
  "mset (map reported (entities (groupOf es k))) = image_mset located (mset (sharing k es))"
  by (simp add: group_entities ranked_reported)

lemma group_head_scope:
  assumes "sharing k es \<noteq> []"
  shows "dup_scope (hd (entities (groupOf es k)))
           = ent_scope (hd (sort_key (\<lambda>e. scopeRank (ent_scope e)) (sharing k es)))"
proof -
  let ?s = "sort_key (\<lambda>e. scopeRank (ent_scope e)) (sharing k es)"
  have ne: "?s \<noteq> []" using assms by (metis length_0_conv length_sort)
  then have "ranked ?s \<noteq> []" by (metis length_0_conv ranked_length)
  then have "dup_scope (hd (ranked ?s)) = hd (map dup_scope (ranked ?s))"
    by (simp add: hd_map)
  also have "\<dots> = hd (map ent_scope ?s)" by (simp only: ranked_scopes)
  also have "\<dots> = ent_scope (hd ?s)" using ne by (simp add: hd_map)
  finally show ?thesis by (simp add: group_entities)
qed

lemma group_head_least:
  assumes "e \<in> set (sharing k es)"
  shows "scopeRank (dup_scope (hd (entities (groupOf es k)))) \<le> scopeRank (ent_scope e)"
proof -
  let ?s = "sort_key (\<lambda>e. scopeRank (ent_scope e)) (sharing k es)"
  have ne: "sharing k es \<noteq> []" using assms by auto
  have "sorted (map (\<lambda>e. scopeRank (ent_scope e)) ?s)" by (rule sorted_sort_key)
  moreover have "e \<in> set ?s" using assms by simp
  ultimately have "scopeRank (ent_scope (hd ?s)) \<le> scopeRank (ent_scope e)"
    by (rule sorted_hd_least)
  then show ?thesis by (simp add: group_head_scope [OF ne])
qed

lemma group_head_member:
  assumes "sharing k es \<noteq> []"
  shows "\<exists>e \<in> set (sharing k es). dup_scope (hd (entities (groupOf es k))) = ent_scope e"
proof -
  let ?s = "sort_key (\<lambda>e. scopeRank (ent_scope e)) (sharing k es)"
  have ne: "?s \<noteq> []" using assms by (metis length_0_conv length_sort)
  then have "hd ?s \<in> set ?s" by (rule hd_in_set)
  then have "hd ?s \<in> set (sharing k es)" by simp
  then show ?thesis using group_head_scope [OF assms] by blast
qed

lemma group_scopes_from_members:
  assumes "d \<in> set (entities (groupOf es k))"
  shows "\<exists>e \<in> set (sharing k es). dup_scope d = ent_scope e"
proof -
  let ?s = "sort_key (\<lambda>e. scopeRank (ent_scope e)) (sharing k es)"
  from assms have "dup_scope d \<in> set (map dup_scope (ranked ?s))"
    by (simp add: group_entities)
  then have "dup_scope d \<in> set (map ent_scope ?s)" by (simp only: ranked_scopes)
  then show ?thesis by auto
qed

lemma group_head_order_independent:
  assumes m: "mset es' = mset es" and ne: "sharing k es \<noteq> []"
  shows "dup_scope (hd (entities (groupOf es' k))) = dup_scope (hd (entities (groupOf es k)))"
proof -
  have sm: "mset (sharing k es') = mset (sharing k es)" by (rule sharing_mset [OF m])
  then have ss: "set (sharing k es') = set (sharing k es)" by (metis set_mset_mset)
  have ne': "sharing k es' \<noteq> []" using ne ss by (metis set_empty)
  obtain e where e: "e \<in> set (sharing k es)"
    "dup_scope (hd (entities (groupOf es k))) = ent_scope e"
    using group_head_member [OF ne] by blast
  obtain e' where e': "e' \<in> set (sharing k es')"
    "dup_scope (hd (entities (groupOf es' k))) = ent_scope e'"
    using group_head_member [OF ne'] by blast
  have "scopeRank (dup_scope (hd (entities (groupOf es' k)))) \<le> scopeRank (ent_scope e)"
    using group_head_least [of e k es'] e(1) ss by simp
  moreover have "scopeRank (dup_scope (hd (entities (groupOf es k)))) \<le> scopeRank (ent_scope e')"
    using group_head_least [of e' k es] e'(1) ss by simp
  ultimately have "scopeRank (dup_scope (hd (entities (groupOf es' k))))
                     = scopeRank (dup_scope (hd (entities (groupOf es k))))"
    using e(2) e'(2) by simp
  then show ?thesis by (rule scopeRank_inj)
qed

text \<open>
  C7, on the model of the resolver written from section 4.3. Every group of a snapshot
  has at least two members; its kind is neither hook nor MCP server; its members are,
  with their id, path, scope and project, exactly the entities of the snapshot that have
  the group's kind and name; the ranks of its members are 0, 1, ... in this order; the
  member of rank 0 is at a scope at least as specific as every member's; and for every
  other order of discovery of the same entities there is a group of the same kind and
  name with the same members whose member of rank 0 is at the same scope.
\<close>

theorem find_duplicates_groups:
  assumes g: "g \<in> set (find_duplicates es)"
  shows "2 \<le> length (entities g)
    \<and> entity_type g \<noteq> hook_kind \<and> entity_type g \<noteq> mcp_kind
    \<and> mset (map reported (entities g))
        = mset (map located
            (filter (\<lambda>e. grouped e \<and> ent_type e = entity_type g \<and> ent_name e = group_name g) es))
    \<and> map precedence (entities g) = [0..<length (entities g)]
    \<and> (\<forall>d \<in> set (entities g).
          scopeRank (dup_scope (hd (entities g))) \<le> scopeRank (dup_scope d))
    \<and> (\<forall>es'. mset es' = mset es \<longrightarrow>
          (\<exists>g' \<in> set (find_duplicates es').
              entity_type g' = entity_type g \<and> group_name g' = group_name g
              \<and> mset (map reported (entities g')) = mset (map reported (entities g))
              \<and> dup_scope (hd (entities g')) = dup_scope (hd (entities g))))"
proof -
  from g obtain k where k: "g = groupOf es k" and two: "2 \<le> length (sharing k es)"
    unfolding find_duplicates_mem by blast
  have ne: "sharing k es \<noteq> []" using two by auto
  have names: "entity_type g = fst k" "group_name g = snd k"
    using k by (simp_all add: groupOf_def)
  have a: "2 \<le> length (entities g)"
    using two k by (simp add: group_entities)
  obtain e where e: "e \<in> set (sharing k es)" using ne by (cases "sharing k es") auto
  then have "grouped e" "ent_type e = fst k" by (auto simp: sharing_as_filter)
  then have b: "entity_type g \<noteq> hook_kind \<and> entity_type g \<noteq> mcp_kind"
    using names by (simp add: grouped_def)
  have c: "mset (map reported (entities g))
        = mset (map located
            (filter (\<lambda>e. grouped e \<and> ent_type e = entity_type g \<and> ent_name e = group_name g) es))"
    unfolding k group_reported by (simp add: sharing_as_filter groupOf_def)
  have d: "map precedence (entities g) = [0..<length (entities g)]"
    unfolding k group_entities by (simp add: ranked_precedence)
  have e5: "\<forall>d \<in> set (entities g).
          scopeRank (dup_scope (hd (entities g))) \<le> scopeRank (dup_scope d)"
  proof
    fix d assume "d \<in> set (entities g)"
    then obtain x where "x \<in> set (sharing k es)" "dup_scope d = ent_scope x"
      using group_scopes_from_members k by blast
    then show "scopeRank (dup_scope (hd (entities g))) \<le> scopeRank (dup_scope d)"
      using group_head_least [of x k es] k by simp
  qed
  have f: "\<forall>es'. mset es' = mset es \<longrightarrow>
          (\<exists>g' \<in> set (find_duplicates es').
              entity_type g' = entity_type g \<and> group_name g' = group_name g
              \<and> mset (map reported (entities g')) = mset (map reported (entities g))
              \<and> dup_scope (hd (entities g')) = dup_scope (hd (entities g)))"
  proof (intro allI impI)
    fix es' :: "Entity list" assume m: "mset es' = mset es"
    have sm: "mset (sharing k es') = mset (sharing k es)" by (rule sharing_mset [OF m])
    then have "length (sharing k es') = length (sharing k es)" by (metis size_mset)
    then have "2 \<le> length (sharing k es')" using two by simp
    then have "\<exists>k'. groupOf es' k = groupOf es' k' \<and> 2 \<le> length (sharing k' es')"
      by blast
    then have mem: "groupOf es' k \<in> set (find_duplicates es')"
      by (simp only: find_duplicates_mem)
    have "entity_type (groupOf es' k) = entity_type g \<and> group_name (groupOf es' k) = group_name g"
      using names by (simp add: groupOf_def)
    moreover have "mset (map reported (entities (groupOf es' k))) = mset (map reported (entities g))"
      unfolding k group_reported by (simp add: sm)
    moreover have "dup_scope (hd (entities (groupOf es' k))) = dup_scope (hd (entities g))"
      unfolding k by (rule group_head_order_independent [OF m ne])
    ultimately show "\<exists>g' \<in> set (find_duplicates es').
              entity_type g' = entity_type g \<and> group_name g' = group_name g
              \<and> mset (map reported (entities g')) = mset (map reported (entities g))
              \<and> dup_scope (hd (entities g')) = dup_scope (hd (entities g))"
      using mem by blast
  qed
  from a b c d e5 f show ?thesis by blast
qed

theorem find_duplicates_groups_witness:
  "find_duplicates
     [\<lparr>ent_id = ''g'', ent_name = ''reviewer'', ent_path = ''/home/.claude/agents/reviewer.md'',
        ent_scope = global_level, ent_project_path = None, ent_type = agent_kind\<rparr>,
      \<lparr>ent_id = ''a'', ent_name = ''reviewer'', ent_path = ''/a/.claude/agents/reviewer.md'',
        ent_scope = project_level, ent_project_path = Some ''/a'', ent_type = agent_kind\<rparr>,
      \<lparr>ent_id = ''b'', ent_name = ''reviewer'', ent_path = ''/b/.claude/agents/reviewer.md'',
        ent_scope = project_level, ent_project_path = Some ''/b'', ent_type = agent_kind\<rparr>]
   = [\<lparr>group_name = ''reviewer'', entity_type = agent_kind,
       entities =
         [\<lparr>dup_id = ''a'', dup_path = ''/a/.claude/agents/reviewer.md'',
            dup_scope = project_level, dup_project_path = Some ''/a'', precedence = 0\<rparr>,
          \<lparr>dup_id = ''b'', dup_path = ''/b/.claude/agents/reviewer.md'',
            dup_scope = project_level, dup_project_path = Some ''/b'', precedence = 1\<rparr>,
          \<lparr>dup_id = ''g'', dup_path = ''/home/.claude/agents/reviewer.md'',
            dup_scope = global_level, dup_project_path = None, precedence = 2\<rparr>]\<rparr>]
   \<and> map precedence
        [\<lparr>dup_id = ''a'', dup_path = ''/a/.claude/agents/reviewer.md'',
            dup_scope = project_level, dup_project_path = Some ''/a'', precedence = 0\<rparr>,
          \<lparr>dup_id = ''b'', dup_path = ''/b/.claude/agents/reviewer.md'',
            dup_scope = project_level, dup_project_path = Some ''/b'', precedence = 1\<rparr>,
          \<lparr>dup_id = ''g'', dup_path = ''/home/.claude/agents/reviewer.md'',
            dup_scope = global_level, dup_project_path = None, precedence = 2\<rparr>]
      = [0, 1, 2]"
proof -
  let ?es = "[\<lparr>ent_id = ''g'', ent_name = ''reviewer'', ent_path = ''/home/.claude/agents/reviewer.md'',
        ent_scope = global_level, ent_project_path = None, ent_type = agent_kind\<rparr>,
      \<lparr>ent_id = ''a'', ent_name = ''reviewer'', ent_path = ''/a/.claude/agents/reviewer.md'',
        ent_scope = project_level, ent_project_path = Some ''/a'', ent_type = agent_kind\<rparr>,
      \<lparr>ent_id = ''b'', ent_name = ''reviewer'', ent_path = ''/b/.claude/agents/reviewer.md'',
        ent_scope = project_level, ent_project_path = Some ''/b'', ent_type = agent_kind\<rparr>]"
  let ?g = "\<lparr>group_name = ''reviewer'', entity_type = agent_kind,
       entities =
         [\<lparr>dup_id = ''a'', dup_path = ''/a/.claude/agents/reviewer.md'',
            dup_scope = project_level, dup_project_path = Some ''/a'', precedence = 0\<rparr>,
          \<lparr>dup_id = ''b'', dup_path = ''/b/.claude/agents/reviewer.md'',
            dup_scope = project_level, dup_project_path = Some ''/b'', precedence = 1\<rparr>,
          \<lparr>dup_id = ''g'', dup_path = ''/home/.claude/agents/reviewer.md'',
            dup_scope = global_level, dup_project_path = None, precedence = 2\<rparr>]\<rparr>"
  have ev: "find_duplicates ?es = [?g]"
    by (simp add: find_duplicates_def sharing_def grouped_def groupKey_def groupOf_def
        ranked_def asDuplicate_def enumerate_simps)
  then have mem: "?g \<in> set (find_duplicates ?es)" by simp
  from find_duplicates_groups [OF mem] have "map precedence (entities ?g) = [0..<length (entities ?g)]"
    by blast
  then show ?thesis using ev by simp
qed

end
